theory Spec2Isabelle
  imports Main
begin

section \<open>Values, request objects and behaviours\<close>

text \<open>
  The routine built by \<open>makeHandler\<close> (index.ts) works on untyped JavaScript values:
  the request fields, the payloads and the errors are all \<open>unknown\<close>. The only thing
  the routine ever asks of a value is its truthiness (\<open>if (err)\<close>, \<open>!err\<close>).
  Numbers are integers here (\<open>NaN\<close> is left out); every object is truthy.
\<close>

datatype jsval =
    VUndefined
  | VNull
  | VBool bool
  | VNum int
  | VStr string
  | VObj "(string \<times> jsval) list"

fun truthy :: "jsval \<Rightarrow> bool" where
  "truthy VUndefined = False"
| "truthy VNull = False"
| "truthy (VBool b) = b"
| "truthy (VNum n) = (n \<noteq> 0)"
| "truthy (VStr s) = (s \<noteq> [])"
| "truthy (VObj fs) = True"

text \<open>The request object: named properties; a missing property reads as \<open>undefined\<close>.\<close>

type_synonym obj = "(string \<times> jsval) list"

fun get_prop :: "obj \<Rightarrow> string \<Rightarrow> jsval" where
  "get_prop [] k = VUndefined"
| "get_prop ((k', v) # r) k = (if k = k' then v else get_prop r k)"

fun set_prop :: "string \<Rightarrow> jsval \<Rightarrow> obj \<Rightarrow> obj" where
  "set_prop k v [] = [(k, v)]"
| "set_prop k v ((k', v') # r) = (if k = k' then (k, v) # r else (k', v') # set_prop k v r)"

datatype field = Query | Params | Body | Result

fun field_key :: "field \<Rightarrow> string" where
  "field_key Query = ''query''"
| "field_key Params = ''params''"
| "field_key Body = ''body''"
| "field_key Result = ''result''"

text \<open>
  What an invocation does, in order. \<open>EMw i r\<close>: the \<open>i\<close>-th function of \<open>use\<close> is
  called, with the request object in state \<open>r\<close>; \<open>ESignal v\<close>: \<open>localNext(v)\<close> is
  called; \<open>EParse f v\<close>: \<open>parse\<close> is called for field \<open>f\<close> on \<open>v\<close>; \<open>EInstall\<close>:
  \<open>res.send\<close> is replaced by the wrapper;
  \<open>EHandler r\<close>: the handler is called with the request object in state \<open>r\<close>;
  \<open>ETransmit v\<close>: the host's own \<open>send\<close> is called with \<open>v\<close>; \<open>ECaught e\<close>: the
  \<open>catch\<close> block runs with \<open>e\<close>; \<open>ENext v\<close>: the host's \<open>next\<close> is called with \<open>v\<close>.
\<close>

datatype event =
    EMw nat obj
  | ESignal jsval
  | EParse field jsval
  | EInstall
  | EHandler obj
  | ETransmit jsval
  | ECaught jsval
  | ENext jsval

text \<open>
  A middleware or a handler is a function \<open>(req, res, next)\<close> of the application. Its
  behaviour is the sequence of things it does to its three arguments before it returns
  or throws: call \<open>next(v)\<close>, assign a property of \<open>req\<close>, call \<open>res.send(v)\<close> (and go on
  one way when the call returns, another way, given the exception, when it throws).
  A rejected promise is a throw, since the routine awaits the call.
\<close>

datatype prog =
    Return jsval
  | Throw jsval
  | CallNext jsval prog
  | Assign string jsval prog
  | Send jsval prog "jsval \<Rightarrow> prog"

type_synonym routine = "obj \<Rightarrow> prog"

section \<open>The options of makeHandler and of a route\<close>

text \<open>
  \<open>parse\<close> returns the value or throws: \<open>Inl\<close> is the thrown error. \<open>checkResult\<close> is
  optional; its default is \<open>process.env.NODE_ENV !== 'production'\<close>. A schema \<open>'T\<close> is
  an object of the validation library, hence truthy in \<open>if (query)\<close> and \<open>if (result)\<close>.
\<close>

record 'T options =
  parse :: "'T \<Rightarrow> jsval \<Rightarrow> jsval + jsval"
  object :: "(string \<times> 'T) list \<Rightarrow> 'T"
  checkResult :: "bool option"

definition checkResult_of :: "'T options \<Rightarrow> string option \<Rightarrow> bool" where
  "checkResult_of opts node_env =
     (case checkResult opts of
        None \<Rightarrow> node_env \<noteq> Some ''production''
      | Some b \<Rightarrow> b)"

text \<open>A schema option of a route is a plain object of schemas or a schema.\<close>

datatype 'T schema_cfg = FieldMap "(string \<times> 'T) list" | Schema 'T

fun objectToType :: "((string \<times> 'T) list \<Rightarrow> 'T) \<Rightarrow> 'T schema_cfg option \<Rightarrow> 'T option" where
  "objectToType obj None = None"
| "objectToType obj (Some (FieldMap m)) = Some (obj m)"
| "objectToType obj (Some (Schema t)) = Some t"

datatype use_cfg = Single routine | Many "routine list"

record 'T route =
  use :: "use_cfg option"
  query :: "'T schema_cfg option"
  params :: "'T schema_cfg option"
  body :: "'T schema_cfg option"
  result :: "'T schema_cfg option"
  handler :: routine

text \<open>\<open>if (use && !Array.isArray(use)) use = [use]\<close>, then \<open>if (use) for (const fn of use)\<close>.\<close>

fun use_list :: "use_cfg option \<Rightarrow> routine list" where
  "use_list None = []"
| "use_list (Some (Single fn)) = [fn]"
| "use_list (Some (Many fns)) = fns"

section \<open>The state of one invocation\<close>

text \<open>
  \<open>res.send\<close> holds the host's function or the wrapper installed by the routine; the
  wrapper closes over \<open>send\<close>, the function it replaced, and over the normalised result
  schema.
\<close>

datatype 'T sendfn = HostSend | Wrapper "'T sendfn" 'T

record 'T st =
  req :: obj
  err :: jsval
  originalSend :: "'T sendfn option"
  res_send :: "'T sendfn"
  headersSent :: bool
  trace :: "event list"

definition init :: "obj \<Rightarrow> bool \<Rightarrow> 'T st" where
  "init req0 hs0 =
     \<lparr> req = req0, err = VUndefined, originalSend = None, res_send = HostSend,
       headersSent = hs0, trace = [] \<rparr>"

definition log :: "event \<Rightarrow> 'T st \<Rightarrow> 'T st" where
  "log e s = s\<lparr> trace := trace s @ [e] \<rparr>"

text \<open>
  The host's \<open>send\<close>, as the response of index.test.ts has it
  (\<open>send: vi.fn(() => { res.headersSent = true; })\<close>): it takes the payload and marks
  the headers as sent.
\<close>

definition host_send :: "jsval \<Rightarrow> 'T st \<Rightarrow> 'T st" where
  "host_send v s = (log (ETransmit v) s)\<lparr> headersSent := True \<rparr>"

text \<open>
  A call of a send function. The result is \<open>None\<close> when the call returns and \<open>Some e\<close>
  when it throws \<open>e\<close>. The wrapper:
  \<open>originalSend = undefined; res.send = send; return send.call(res, parse(result, value))\<close>.
\<close>

primrec apply_send ::
  "'T options \<Rightarrow> 'T sendfn \<Rightarrow> jsval \<Rightarrow> 'T st \<Rightarrow> jsval option \<times> 'T st" where
  "apply_send opts HostSend v s = (None, host_send v s)"
| "apply_send opts (Wrapper send t) v s =
     (let s1 = log (EParse Result v) (s\<lparr> originalSend := None, res_send := send \<rparr>)
      in case parse opts t v of
           Inl e \<Rightarrow> (Some e, s1)
         | Inr v' \<Rightarrow> apply_send opts send v' s1)"

text \<open>A call \<open>res.send(value)\<close>.\<close>

definition call_send :: "'T options \<Rightarrow> jsval \<Rightarrow> 'T st \<Rightarrow> jsval option \<times> 'T st" where
  "call_send opts v s = apply_send opts (res_send s) v s"

datatype outcome = Returned jsval | Thrown jsval

text \<open>Running a middleware or the handler; \<open>localNext\<close> is \<open>err = error\<close>.\<close>

primrec exec :: "'T options \<Rightarrow> prog \<Rightarrow> 'T st \<Rightarrow> outcome \<times> 'T st" where
  "exec opts (Return v) = (\<lambda>s. (Returned v, s))"
| "exec opts (Throw e) = (\<lambda>s. (Thrown e, s))"
| "exec opts (CallNext e p) = (\<lambda>s. exec opts p (log (ESignal e) (s\<lparr> err := e \<rparr>)))"
| "exec opts (Assign k v p) = (\<lambda>s. exec opts p (s\<lparr> req := set_prop k v (req s) \<rparr>))"
| "exec opts (Send v p h) =
     (\<lambda>s. case call_send opts v s of
            (None, s') \<Rightarrow> exec opts p s'
          | (Some e, s') \<Rightarrow> exec opts (h e) s')"

section \<open>The routine\<close>

text \<open>
  How a part of the \<open>try\<close> block ends: it runs to its end, it executes \<open>return\<close>, or
  an exception leaves it.
\<close>

datatype flow = Fallthrough | EarlyReturn | Exception jsval

text \<open>
  \<open>for (const fn of use) { await fn(req, res, localNext); if (err) { next(err); return; } }\<close>
  The result of \<open>fn\<close> is not used.
\<close>

fun run_use :: "'T options \<Rightarrow> nat \<Rightarrow> routine list \<Rightarrow> 'T st \<Rightarrow> flow \<times> 'T st" where
  "run_use opts i [] s = (Fallthrough, s)"
| "run_use opts i (fn # fns) s =
     (case exec opts (fn (req s)) (log (EMw i (req s)) s) of
        (Thrown e, s') \<Rightarrow> (Exception e, s')
      | (Returned x, s') \<Rightarrow>
          if truthy (err s') then (EarlyReturn, log (ENext (err s')) s')
          else run_use opts (Suc i) fns s')"

text \<open>\<open>if (query) req.query = parse(query, req.query)\<close>, and the same for the other two.\<close>

fun parse_field :: "'T options \<Rightarrow> field \<Rightarrow> 'T option \<Rightarrow> 'T st \<Rightarrow> flow \<times> 'T st" where
  "parse_field opts f None s = (Fallthrough, s)"
| "parse_field opts f (Some t) s =
     (let v = get_prop (req s) (field_key f); s1 = log (EParse f v) s
      in case parse opts t v of
           Inl e \<Rightarrow> (Exception e, s1)
         | Inr v' \<Rightarrow> (Fallthrough, s1\<lparr> req := set_prop (field_key f) v' (req s1) \<rparr>))"

text \<open>
  \<open>if (result && checkResult) { const send = res.send; originalSend = send; res.send = ... }\<close>
\<close>

fun install :: "bool \<Rightarrow> 'T option \<Rightarrow> 'T st \<Rightarrow> 'T st" where
  "install chk (Some t) s =
     (if chk then log EInstall (s\<lparr> originalSend := Some (res_send s), res_send := Wrapper (res_send s) t \<rparr>)
      else s)"
| "install chk None s = s"

text \<open>Statements in sequence: the second runs only when the first ran to its end.\<close>

fun and_then :: "flow \<times> 'T st \<Rightarrow> ('T st \<Rightarrow> flow \<times> 'T st) \<Rightarrow> flow \<times> 'T st" where
  "and_then (Fallthrough, s) f = f s"
| "and_then (EarlyReturn, s) f = (EarlyReturn, s)"
| "and_then (Exception e, s) f = (Exception e, s)"

text \<open>The \<open>try\<close> block up to the call of the handler.\<close>

definition before_handler ::
  "'T options \<Rightarrow> string option \<Rightarrow> 'T route \<Rightarrow> 'T st \<Rightarrow> flow \<times> 'T st" where
  "before_handler opts node_env rt s0 =
     and_then (and_then (and_then (and_then
       (run_use opts 0 (use_list (use rt)) s0)
       (parse_field opts Query (objectToType (object opts) (query rt))))
       (parse_field opts Params (objectToType (object opts) (params rt))))
       (parse_field opts Body (objectToType (object opts) (body rt))))
       (\<lambda>s. (Fallthrough,
              install (checkResult_of opts node_env) (objectToType (object opts) (result rt)) s))"

text \<open>
  \<open>const output = await handler(req, res, localNext);
   if (!res.headersSent && !err) res.send(output);\<close>
\<close>

definition invoke_handler :: "'T options \<Rightarrow> 'T route \<Rightarrow> 'T st \<Rightarrow> flow \<times> 'T st" where
  "invoke_handler opts rt s =
     (case exec opts (handler rt (req s)) (log (EHandler (req s)) s) of
        (Thrown e, s') \<Rightarrow> (Exception e, s')
      | (Returned output, s') \<Rightarrow>
          if \<not> headersSent s' \<and> \<not> truthy (err s') then
            (case call_send opts output s' of
               (None, s'') \<Rightarrow> (Fallthrough, s'')
             | (Some e, s'') \<Rightarrow> (Exception e, s''))
          else (Fallthrough, s'))"

definition try_block ::
  "'T options \<Rightarrow> string option \<Rightarrow> 'T route \<Rightarrow> 'T st \<Rightarrow> flow \<times> 'T st" where
  "try_block opts node_env rt s0 =
     and_then (before_handler opts node_env rt s0) (invoke_handler opts rt)"

text \<open>After the \<open>try\<close>: \<open>if (originalSend) res.send = originalSend; next(err);\<close>\<close>

definition finish :: "'T st \<Rightarrow> 'T st" where
  "finish s =
     (let s' = (case originalSend s of Some f \<Rightarrow> s\<lparr> res_send := f \<rparr> | None \<Rightarrow> s)
      in log (ENext (err s')) s')"

text \<open>
  The routine returned for a route, called with a request object whose properties are
  \<open>req0\<close> and a response whose \<open>headersSent\<close> is \<open>hs0\<close>.
\<close>

definition request_routine ::
  "'T options \<Rightarrow> string option \<Rightarrow> 'T route \<Rightarrow> obj \<Rightarrow> bool \<Rightarrow> 'T st" where
  "request_routine opts node_env rt req0 hs0 =
     (case try_block opts node_env rt (init req0 hs0) of
        (EarlyReturn, s) \<Rightarrow> s
      | (Fallthrough, s) \<Rightarrow> finish s
      | (Exception e, s) \<Rightarrow> finish (log (ECaught e) (s\<lparr> err := e \<rparr>)))"

section \<open>Reading a trace\<close>

primrec pick :: "(event \<Rightarrow> 'a option) \<Rightarrow> event list \<Rightarrow> 'a list" where
  "pick f [] = []"
| "pick f (e # tr) = (case f e of None \<Rightarrow> pick f tr | Some x \<Rightarrow> x # pick f tr)"

fun next_arg :: "event \<Rightarrow> jsval option" where
  "next_arg (ENext v) = Some v"
| "next_arg _ = None"

fun mw_call :: "event \<Rightarrow> (nat \<times> obj) option" where
  "mw_call (EMw i r) = Some (i, r)"
| "mw_call _ = None"

fun handler_call :: "event \<Rightarrow> obj option" where
  "handler_call (EHandler r) = Some r"
| "handler_call _ = None"

fun transmit :: "event \<Rightarrow> jsval option" where
  "transmit (ETransmit v) = Some v"
| "transmit _ = None"

fun field_parse :: "event \<Rightarrow> (field \<times> jsval) option" where
  "field_parse (EParse f v) = (if f = Result then None else Some (f, v))"
| "field_parse _ = None"

fun result_parse :: "event \<Rightarrow> jsval option" where
  "result_parse (EParse f v) = (if f = Result then Some v else None)"
| "result_parse _ = None"

text \<open>The assignments to \<open>err\<close>: by \<open>localNext\<close> and by the \<open>catch\<close> block.\<close>

fun slot_write :: "event \<Rightarrow> jsval option" where
  "slot_write (ESignal v) = Some v"
| "slot_write (ECaught v) = Some v"
| "slot_write _ = None"

abbreviation next_args :: "event list \<Rightarrow> jsval list" where
  "next_args tr \<equiv> pick next_arg tr"

abbreviation mw_calls :: "event list \<Rightarrow> (nat \<times> obj) list" where
  "mw_calls tr \<equiv> pick mw_call tr"

abbreviation handler_calls :: "event list \<Rightarrow> obj list" where
  "handler_calls tr \<equiv> pick handler_call tr"

abbreviation transmits :: "event list \<Rightarrow> jsval list" where
  "transmits tr \<equiv> pick transmit tr"

abbreviation field_parses :: "event list \<Rightarrow> (field \<times> jsval) list" where
  "field_parses tr \<equiv> pick field_parse tr"

abbreviation result_parses :: "event list \<Rightarrow> jsval list" where
  "result_parses tr \<equiv> pick result_parse tr"

abbreviation slot_writes :: "event list \<Rightarrow> jsval list" where
  "slot_writes tr \<equiv> pick slot_write tr"

text \<open>The value last assigned to \<open>err\<close>, which starts as \<open>undefined\<close>.\<close>

definition last_write :: "event list \<Rightarrow> jsval" where
  "last_write tr = (case rev (slot_writes tr) of [] \<Rightarrow> VUndefined | w # ws \<Rightarrow> w)"

text \<open>What a function of the application may add to the trace.\<close>

fun prog_event :: "event \<Rightarrow> bool" where
  "prog_event (ESignal v) = True"
| "prog_event (EParse f v) = (f = Result)"
| "prog_event (ETransmit v) = True"
| "prog_event _ = False"

section \<open>The behaviour of a middleware, summarised\<close>

text \<open>
  While the functions of \<open>use\<close> run, \<open>res.send\<close> is the host's, whose calls return;
  so a middleware follows the first branch of each \<open>Send\<close>. Along that path:
  the value it throws, if it throws; the last value it passes to \<open>next\<close>, if it calls
  it; the request object as it leaves it.
\<close>

primrec step_thrown :: "prog \<Rightarrow> jsval option" where
  "step_thrown (Return v) = None"
| "step_thrown (Throw e) = Some e"
| "step_thrown (CallNext e p) = step_thrown p"
| "step_thrown (Assign k v p) = step_thrown p"
| "step_thrown (Send v p h) = step_thrown p"

primrec step_last_signal :: "prog \<Rightarrow> jsval option" where
  "step_last_signal (Return v) = None"
| "step_last_signal (Throw e) = None"
| "step_last_signal (CallNext e p) =
     (case step_last_signal p of None \<Rightarrow> Some e | Some e' \<Rightarrow> Some e')"
| "step_last_signal (Assign k v p) = step_last_signal p"
| "step_last_signal (Send v p h) = step_last_signal p"

primrec step_extension :: "prog \<Rightarrow> obj \<Rightarrow> obj" where
  "step_extension (Return v) r = r"
| "step_extension (Throw e) r = r"
| "step_extension (CallNext e p) r = step_extension p r"
| "step_extension (Assign k v p) r = step_extension p (set_prop k v r)"
| "step_extension (Send v p h) r = step_extension p r"

text \<open>
  A step fails with \<open>e\<close> when it throws \<open>e\<close>, or when it returns after a call
  \<open>next(e)\<close> with an error \<open>e\<close> (a truthy value, not overwritten by a later call).
\<close>

definition step_failure :: "prog \<Rightarrow> jsval option" where
  "step_failure p =
     (case step_thrown p of
        Some e \<Rightarrow> Some e
      | None \<Rightarrow>
          (case step_last_signal p of
             None \<Rightarrow> None
           | Some e \<Rightarrow> if truthy e then Some e else None))"

text \<open>A chain in which no step fails, and the request object it produces.\<close>

fun chain_ok :: "routine list \<Rightarrow> obj \<Rightarrow> bool" where
  "chain_ok [] r = True"
| "chain_ok (fn # fns) r = (step_failure (fn r) = None \<and> chain_ok fns (step_extension (fn r) r))"

fun chain_context :: "routine list \<Rightarrow> obj \<Rightarrow> obj" where
  "chain_context [] r = r"
| "chain_context (fn # fns) r = chain_context fns (step_extension (fn r) r)"

section \<open>Field validation, as the specification words it\<close>

text \<open>
  For each field of the list, in order, that has a schema: validate the current value of
  the field; on success replace the field by the result and go on; on failure stop with
  the error. The result is the list of validations made and the error or the request
  object.
\<close>

fun spec_validate ::
  "('T \<Rightarrow> jsval \<Rightarrow> jsval + jsval) \<Rightarrow> (field \<times> 'T option) list \<Rightarrow> obj
     \<Rightarrow> (field \<times> jsval) list \<times> (jsval + obj)" where
  "spec_validate prs [] r = ([], Inr r)"
| "spec_validate prs ((f, None) # fs) r = spec_validate prs fs r"
| "spec_validate prs ((f, Some t) # fs) r =
     (let v = get_prop r (field_key f) in
      case prs t v of
        Inl e \<Rightarrow> ([(f, v)], Inl e)
      | Inr v' \<Rightarrow>
          (case spec_validate prs fs (set_prop (field_key f) v' r) of
             (done, res) \<Rightarrow> ((f, v) # done, res)))"

text \<open>The schemas of a route after \<open>objectToType\<close>, in the order the routine uses them.\<close>

definition field_schemas :: "'T options \<Rightarrow> 'T route \<Rightarrow> (field \<times> 'T option) list" where
  "field_schemas opts rt =
     [(Query, objectToType (object opts) (query rt)),
      (Params, objectToType (object opts) (params rt)),
      (Body, objectToType (object opts) (body rt))]"

section \<open>The start of a behaviour\<close>

text \<open>
  What a function of the application does before its first call of \<open>res.send\<close>, its return
  or its throw: the act it comes to, the values it passes to \<open>next\<close> before that, and the
  state it reaches.
\<close>

primrec first_act :: "prog \<Rightarrow> prog" where
  "first_act (Return v) = Return v"
| "first_act (Throw e) = Throw e"
| "first_act (CallNext e p) = first_act p"
| "first_act (Assign k v p) = first_act p"
| "first_act (Send v p h) = Send v p h"

primrec prelude_signals :: "prog \<Rightarrow> jsval list" where
  "prelude_signals (Return v) = []"
| "prelude_signals (Throw e) = []"
| "prelude_signals (CallNext e p) = e # prelude_signals p"
| "prelude_signals (Assign k v p) = prelude_signals p"
| "prelude_signals (Send v p h) = []"

primrec prelude_state :: "prog \<Rightarrow> 'T st \<Rightarrow> 'T st" where
  "prelude_state (Return v) s = s"
| "prelude_state (Throw e) s = s"
| "prelude_state (CallNext e p) s = prelude_state p (log (ESignal e) (s\<lparr> err := e \<rparr>))"
| "prelude_state (Assign k v p) s = prelude_state p (s\<lparr> req := set_prop k v (req s) \<rparr>)"
| "prelude_state (Send v p h) s = s"

section \<open>Invariants of an invocation\<close>

text \<open>
  \<open>originalSend\<close> is unset while \<open>res.send\<close> is the host's, and holds the host's function
  otherwise; \<open>res.send\<close> is the host's function or a wrapper of it.
\<close>

definition slot_inv :: "'T st \<Rightarrow> bool" where
  "slot_inv s =
     ((case originalSend s of None \<Rightarrow> res_send s = HostSend | Some f \<Rightarrow> f = HostSend)
      \<and> (res_send s = HostSend \<or> (\<exists>t. res_send s = Wrapper HostSend t)))"

text \<open>\<open>err\<close> holds the value last assigned to it.\<close>

definition err_inv :: "'T st \<Rightarrow> bool" where
  "err_inv s = (err s = last_write (trace s))"

fun install_ev :: "event \<Rightarrow> unit option" where
  "install_ev EInstall = Some ()"
| "install_ev _ = None"

abbreviation installs :: "event list \<Rightarrow> unit list" where
  "installs tr \<equiv> pick install_ev tr"

text \<open>
  How things stand while the \<open>try\<close> block has not yet reached the installation of the
  wrapper, and how they stand anywhere in the \<open>try\<close> block.
\<close>

definition pre_install :: "flow \<times> 'T st \<Rightarrow> bool" where
  "pre_install x =
     (case x of (c, s) \<Rightarrow>
        originalSend s = None \<and> res_send s = HostSend \<and> err_inv s
        \<and> next_args (trace s) = (if c = EarlyReturn then [err s] else [])
        \<and> handler_calls (trace s) = [] \<and> installs (trace s) = []
        \<and> result_parses (trace s) = []
        \<and> (c = Fallthrough \<longrightarrow> \<not> truthy (err s)))"

definition in_try :: "flow \<times> 'T st \<Rightarrow> bool" where
  "in_try x =
     (case x of (c, s) \<Rightarrow>
        slot_inv s \<and> err_inv s
        \<and> next_args (trace s) = (if c = EarlyReturn then [err s] else [])
        \<and> (c = EarlyReturn \<longrightarrow> res_send s = HostSend))"

section \<open>The collaborators of the test suite\<close>

text \<open>
  The \<open>parse\<close> of index.test.ts accepts an object whose \<open>key\<close> is a string and returns
  \<open>'parsed'\<close>; it throws its one error otherwise. Its \<open>object\<close> wraps the field map.
\<close>

definition test_parse :: "unit \<Rightarrow> jsval \<Rightarrow> jsval + jsval" where
  "test_parse t v =
     (case v of
        VObj fs \<Rightarrow>
          (case get_prop fs ''key'' of
             VStr k \<Rightarrow> Inr (VStr ''parsed'')
           | _ \<Rightarrow> Inl (VStr ''Invalid value''))
      | _ \<Rightarrow> Inl (VStr ''Invalid value''))"

definition test_opts :: "unit options" where
  "test_opts = \<lparr> parse = test_parse, object = (\<lambda>m. ()), checkResult = None \<rparr>"

text \<open>A route with a handler and no other option.\<close>

definition plain_route :: "routine \<Rightarrow> unit route" where
  "plain_route h =
     \<lparr> use = None, query = None, params = None, body = None, result = None, handler = h \<rparr>"

text \<open>
  Middlewares like those of the README and of the tests: one assigns \<open>user\<close> to \<open>req\<close>
  and returns \<open>req\<close> (\<open>Object.assign(req, { user })\<close>), one throws, one does nothing,
  and one returns a new object with \<open>user\<close> added and leaves \<open>req\<close> as it is.
\<close>

definition step_add_user :: routine where
  "step_add_user r =
     Assign ''user'' (VObj [(''id'', VNum 1)])
       (Return (VObj (set_prop ''user'' (VObj [(''id'', VNum 1)]) r)))"

definition step_fails :: routine where
  "step_fails r = Throw (VStr ''Unauthorized'')"

definition step_idle :: routine where
  "step_idle r = Return VUndefined"

definition step_fresh_object :: routine where
  "step_fresh_object r = Return (VObj (set_prop ''user'' (VObj [(''id'', VNum 1)]) r))"

text \<open>
  A handler that returns \<open>req.user\<close>, and one that calls the error callable and then
  throws; a route with the first after a middleware that returns a new object, and a route
  with the second alone.
\<close>

definition handler_reads_user :: routine where
  "handler_reads_user r = Return (get_prop r ''user'')"

definition handler_signals_then_throws :: routine where
  "handler_signals_then_throws r = CallNext (VStr ''signalled'') (Throw (VStr ''thrown''))"

definition route_fresh_object :: "unit route" where
  "route_fresh_object =
     (plain_route handler_reads_user) \<lparr> use := Some (Many [step_fresh_object, step_idle]) \<rparr>"

definition route_signals_then_throws :: "unit route" where
  "route_signals_then_throws = plain_route handler_signals_then_throws"

text \<open>The value that the test suite's \<open>parse\<close> accepts.\<close>

definition test_value :: jsval where
  "test_value = VObj [(''key'', VStr ''value'')]"

text \<open>
  A payload that the test suite's \<open>parse\<close> rejects. Handlers: one sends it, catches the
  failure of \<open>res.send\<close> and sends a fallback; some call \<open>next\<close> and then send or return;
  some assign to \<open>req\<close> first. Routes with a result schema for them, and the state in which
  such a route, with no middleware and no other schema, reaches its handler.
\<close>

definition invalid_value :: jsval where
  "invalid_value = VObj [(''unexpected'', VBool True)]"

definition handler_catches_send_failure :: routine where
  "handler_catches_send_failure r =
     Send invalid_value (Return VUndefined)
       (\<lambda>e. Send (VStr ''fallback'') (Return VUndefined) Throw)"

definition handler_signals_then_sends_invalid :: routine where
  "handler_signals_then_sends_invalid r =
     CallNext (VStr ''error'') (Send invalid_value (Return VUndefined) Throw)"

definition handler_signals_then_sends :: routine where
  "handler_signals_then_sends r =
     Assign ''seen'' (VBool True)
       (CallNext (VStr ''error'') (Send test_value (Return VNull) Throw))"

definition handler_signals_then_returns :: routine where
  "handler_signals_then_returns r = CallNext (VStr ''error'') (Return test_value)"

definition handler_assigns_then_returns_invalid :: routine where
  "handler_assigns_then_returns_invalid r =
     Assign ''seen'' (VBool True) (CallNext VUndefined (Return invalid_value))"

definition handler_assigns_then_sends_invalid :: routine where
  "handler_assigns_then_sends_invalid r =
     Assign ''seen'' (VBool True) (Send invalid_value (Return VNull) Throw)"

definition route_catches_send_failure :: "unit route" where
  "route_catches_send_failure =
     (plain_route handler_catches_send_failure) \<lparr> result := Some (Schema ()) \<rparr>"

definition route_signals_then_sends_invalid :: "unit route" where
  "route_signals_then_sends_invalid =
     (plain_route handler_signals_then_sends_invalid) \<lparr> result := Some (Schema ()) \<rparr>"

definition route_result_after_failing_step :: "unit route" where
  "route_result_after_failing_step =
     (plain_route handler_reads_user)
       \<lparr> use := Some (Single step_fails), result := Some (Schema ()) \<rparr>"

definition installed_state :: "unit st" where
  "installed_state =
     log EInstall ((init [] False) \<lparr> originalSend := Some HostSend, res_send := Wrapper HostSend () \<rparr>)"

section \<open>Lemmas about traces and the parts of the routine\<close>


lemma log_simps [simp]:
  "req (log e s) = req s" "err (log e s) = err s" "originalSend (log e s) = originalSend s"
  "res_send (log e s) = res_send s" "headersSent (log e s) = headersSent s"
  "trace (log e s) = trace s @ [e]"
  by (simp_all add: log_def)

lemma host_send_simps [simp]:
  "req (host_send v s) = req s" "err (host_send v s) = err s"
  "originalSend (host_send v s) = originalSend s" "res_send (host_send v s) = res_send s"
  "headersSent (host_send v s) = True" "trace (host_send v s) = trace s @ [ETransmit v]"
  by (simp_all add: host_send_def)

lemma pick_append [simp]: "pick f (xs @ ys) = pick f xs @ pick f ys"
  by (induction xs) (auto split: option.splits)

lemma pick_none:
  assumes "list_all Q evs" and "\<And>e. Q e \<Longrightarrow> f e = None"
  shows "pick f evs = []"
  using assms by (induction evs) auto

lemma prog_event_cases:
  "prog_event e \<Longrightarrow> next_arg e = None"
  "prog_event e \<Longrightarrow> mw_call e = None"
  "prog_event e \<Longrightarrow> handler_call e = None"
  "prog_event e \<Longrightarrow> field_parse e = None"
  "prog_event e \<Longrightarrow> install_ev e = None"
  by (cases e; simp)+

lemma last_write_Nil [simp]: "last_write [] = VUndefined"
  by (simp add: last_write_def)

lemma last_write_append [simp]:
  "last_write (a @ b) = (if slot_writes b = [] then last_write a else last_write b)"
  by (cases "rev (slot_writes b)") (auto simp: last_write_def)

lemma last_write_Cons [simp]:
  "last_write (e # tr) =
     (if slot_writes tr = [] then (case slot_write e of None \<Rightarrow> VUndefined | Some v \<Rightarrow> v)
      else last_write tr)"
  using last_write_append [of "[e]" tr] by (simp add: last_write_def del: last_write_append split: option.splits)

text \<open>A relation that holds across each thing a function of the application can do holds
  across its whole run.\<close>

lemma exec_rel:
  assumes refl: "\<And>s. R s s"
    and trans: "\<And>a b c. R a b \<Longrightarrow> R b c \<Longrightarrow> R a c"
    and sig: "\<And>s e. R s (log (ESignal e) (s\<lparr> err := e \<rparr>))"
    and asg: "\<And>s k v. R s (s\<lparr> req := set_prop k v (req s) \<rparr>)"
    and snd: "\<And>s v x s1. call_send opts v s = (x, s1) \<Longrightarrow> R s s1"
  shows "exec opts p s = (out, s') \<Longrightarrow> R s s'"
proof (induction p arbitrary: s)
  case (Return v)
  then show ?case using refl by simp
next
  case (Throw e)
  then show ?case using refl by simp
next
  case (CallNext e p)
  then have "R (log (ESignal e) (s\<lparr> err := e \<rparr>)) s'" by simp
  with sig show ?case using trans by blast
next
  case (Assign k v p)
  then have "R (s\<lparr> req := set_prop k v (req s) \<rparr>) s'" by simp
  with asg show ?case using trans by blast
next
  case (Send v p h)
  obtain x s1 where cs: "call_send opts v s = (x, s1)" by (cases "call_send opts v s")
  have r1: "R s s1" using snd [OF cs] .
  show ?case
  proof (cases x)
    case None
    with Send.prems cs have "exec opts p s1 = (out, s')" by simp
    from Send.IH(1) [OF this] r1 show ?thesis using trans by blast
  next
    case (Some e)
    with Send.prems cs have "exec opts (h e) s1 = (out, s')" by simp
    from Send.IH(2) [OF _ this] r1 show ?thesis using trans by blast
  qed
qed

lemma call_send_HostSend:
  "res_send s = HostSend \<Longrightarrow> call_send opts v s = (None, host_send v s)"
  by (simp add: call_send_def)

lemma call_send_Wrapper:
  "res_send s = Wrapper HostSend t \<Longrightarrow>
     call_send opts v s =
       (case parse opts t v of
          Inl e \<Rightarrow>
            (Some e, log (EParse Result v) (s\<lparr> originalSend := None, res_send := HostSend \<rparr>))
        | Inr v' \<Rightarrow>
            (None, host_send v'
               (log (EParse Result v) (s\<lparr> originalSend := None, res_send := HostSend \<rparr>))))"
  by (simp add: call_send_def Let_def split: sum.splits)

lemmas call_send_simps = call_send_HostSend call_send_Wrapper

lemma apply_send_trace:
  "apply_send opts f v s = (x, s') \<Longrightarrow>
     \<exists>evs. trace s' = trace s @ evs \<and> list_all prog_event evs"
proof (induction f arbitrary: v s)
  case HostSend
  then show ?case by auto
next
  case (Wrapper send t)
  show ?case
  proof (cases "parse opts t v")
    case (Inl e)
    with Wrapper.prems show ?thesis by (auto simp: Let_def)
  next
    case (Inr v')
    with Wrapper.prems have "apply_send opts send v'
        (log (EParse Result v) (s\<lparr> originalSend := None, res_send := send \<rparr>)) = (x, s')"
      by (simp add: Let_def)
    from Wrapper.IH [OF this] obtain evs where
      "trace s' = trace s @ (EParse Result v # evs)" "list_all prog_event evs" by auto
    then have "trace s' = trace s @ (EParse Result v # evs)
        \<and> list_all prog_event (EParse Result v # evs)" by simp
    then show ?thesis by blast
  qed
qed

lemma call_send_trace:
  "call_send opts v s = (x, s') \<Longrightarrow> \<exists>evs. trace s' = trace s @ evs \<and> list_all prog_event evs"
  unfolding call_send_def by (rule apply_send_trace)

lemma apply_send_frame:
  "apply_send opts f v s = (x, s') \<Longrightarrow>
     err s' = err s \<and> req s' = req s \<and> slot_writes (trace s') = slot_writes (trace s)
     \<and> ((headersSent s \<or> transmits (trace s') \<noteq> transmits (trace s)) \<longrightarrow> headersSent s')"
proof (induction f arbitrary: v s)
  case HostSend
  then show ?case by auto
next
  case (Wrapper send t)
  show ?case
  proof (cases "parse opts t v")
    case (Inl e)
    with Wrapper.prems show ?thesis by (auto simp: Let_def)
  next
    case (Inr v')
    with Wrapper.prems have "apply_send opts send v'
        (log (EParse Result v) (s\<lparr> originalSend := None, res_send := send \<rparr>)) = (x, s')"
      by (simp add: Let_def)
    from Wrapper.IH [OF this] show ?thesis by simp
  qed
qed

lemma exec_trace:
  "exec opts p s = (out, s') \<Longrightarrow> \<exists>evs. trace s' = trace s @ evs \<and> list_all prog_event evs"
proof (rule exec_rel [where R = "\<lambda>s s'. \<exists>evs. trace s' = trace s @ evs \<and> list_all prog_event evs"])
  fix a b c :: "'a st"
  assume "\<exists>evs. trace b = trace a @ evs \<and> list_all prog_event evs"
    and "\<exists>evs. trace c = trace b @ evs \<and> list_all prog_event evs"
  then obtain e1 e2 where "trace b = trace a @ e1" "list_all prog_event e1"
    "trace c = trace b @ e2" "list_all prog_event e2" by blast
  then have "trace c = trace a @ (e1 @ e2) \<and> list_all prog_event (e1 @ e2)" by simp
  then show "\<exists>evs. trace c = trace a @ evs \<and> list_all prog_event evs" by blast
qed (auto dest: call_send_trace)

lemma call_send_slot: "call_send opts v s = (x, s') \<Longrightarrow> slot_inv s \<Longrightarrow> slot_inv s'"
  by (auto simp: call_send_def Let_def slot_inv_def split: sum.splits option.splits)

lemma exec_slot: "exec opts p s = (out, s') \<Longrightarrow> slot_inv s \<longrightarrow> slot_inv s'"
  by (rule exec_rel [where R = "\<lambda>s s'. slot_inv s \<longrightarrow> slot_inv s'"])
     (auto dest: call_send_slot simp: slot_inv_def split: option.splits)

lemma call_send_err:
  assumes "call_send opts v s = (x, s')" and "err_inv s"
  shows "err_inv s'"
proof -
  have "err s' = err s" "slot_writes (trace s') = slot_writes (trace s)"
    using apply_send_frame assms(1) unfolding call_send_def by blast+
  with assms(2) show ?thesis by (simp add: err_inv_def last_write_def)
qed

lemma exec_err: "exec opts p s = (out, s') \<Longrightarrow> err_inv s \<longrightarrow> err_inv s'"
  by (rule exec_rel [where R = "\<lambda>s s'. err_inv s \<longrightarrow> err_inv s'"])
     (auto dest: call_send_err simp: err_inv_def)

lemma call_send_headers:
  "call_send opts v s = (x, s') \<Longrightarrow>
     (headersSent s \<or> transmits (trace s') \<noteq> transmits (trace s)) \<longrightarrow> headersSent s'"
  using apply_send_frame unfolding call_send_def by blast

lemma exec_headers:
  "exec opts p s = (out, s') \<Longrightarrow>
     (headersSent s \<or> transmits (trace s') \<noteq> transmits (trace s)) \<longrightarrow> headersSent s'"
  by (rule exec_rel [where R = "\<lambda>s s'. (headersSent s \<or> transmits (trace s') \<noteq> transmits (trace s)) \<longrightarrow> headersSent s'"])
     (auto dest: call_send_headers)


lemma call_send_host:
  "call_send opts v s = (x, s') \<Longrightarrow> res_send s = HostSend \<Longrightarrow>
     x = None \<and> s' = host_send v s"
  by (auto simp: call_send_def)

lemma exec_host:
  "exec opts p s = (out, s') \<Longrightarrow>
     res_send s = HostSend \<longrightarrow>
       res_send s' = HostSend \<and> originalSend s' = originalSend s
       \<and> result_parses (trace s') = result_parses (trace s)"
  by (rule exec_rel [where R = "\<lambda>s s'. res_send s = HostSend \<longrightarrow>
       res_send s' = HostSend \<and> originalSend s' = originalSend s
       \<and> result_parses (trace s') = result_parses (trace s)"])
     (auto dest: call_send_host)

lemma exec_picks:
  assumes "exec opts p s = (out, s')"
  shows "next_args (trace s') = next_args (trace s)"
    and "mw_calls (trace s') = mw_calls (trace s)"
    and "handler_calls (trace s') = handler_calls (trace s)"
    and "field_parses (trace s') = field_parses (trace s)"
    and "installs (trace s') = installs (trace s)"
proof -
  from exec_trace [OF assms] obtain evs where
    evs: "trace s' = trace s @ evs" "list_all prog_event evs" by blast
  show "next_args (trace s') = next_args (trace s)"
    using evs pick_none [OF evs(2), of next_arg] by (simp add: prog_event_cases)
  show "mw_calls (trace s') = mw_calls (trace s)"
    using evs pick_none [OF evs(2), of mw_call] by (simp add: prog_event_cases)
  show "handler_calls (trace s') = handler_calls (trace s)"
    using evs pick_none [OF evs(2), of handler_call] by (simp add: prog_event_cases)
  show "field_parses (trace s') = field_parses (trace s)"
    using evs pick_none [OF evs(2), of field_parse] by (simp add: prog_event_cases)
  show "installs (trace s') = installs (trace s)"
    using evs pick_none [OF evs(2), of install_ev] by (simp add: prog_event_cases)
qed

lemma and_then_rel:
  assumes "and_then x f = (c, s')" and "P x"
    and "\<And>s1. x = (Fallthrough, s1) \<Longrightarrow> f s1 = (c, s') \<Longrightarrow> P (c, s')"
  shows "P (c, s')"
proof (cases x)
  case (Pair c1 s1)
  with assms show ?thesis by (cases c1) auto
qed

lemma run_use_pre_install:
  "run_use opts i fns s = (c, s') \<Longrightarrow> pre_install (Fallthrough, s) \<Longrightarrow> pre_install (c, s')"
proof (induction fns arbitrary: i s)
  case Nil
  then show ?case by simp
next
  case (Cons fn fns)
  obtain out s1 where ex: "exec opts (fn (req s)) (log (EMw i (req s)) s) = (out, s1)"
    by (cases "exec opts (fn (req s)) (log (EMw i (req s)) s)")
  from Cons.prems(2) have pre: "originalSend s = None" "res_send s = HostSend" "err_inv s"
    "next_args (trace s) = []" "handler_calls (trace s) = []" "installs (trace s) = []"
    "result_parses (trace s) = []"
    by (simp_all add: pre_install_def)
  have h: "res_send s1 = HostSend" "originalSend s1 = None" "result_parses (trace s1) = []"
    using exec_host [OF ex] pre by simp_all
  have e: "err_inv s1" using exec_err [OF ex] pre by (simp add: err_inv_def)
  have p: "next_args (trace s1) = []" "handler_calls (trace s1) = []" "installs (trace s1) = []"
    using exec_picks [OF ex] pre by simp_all
  show ?case
  proof (cases out)
    case (Thrown x)
    with Cons.prems(1) ex have "c = Exception x" "s' = s1" by simp_all
    with h e p show ?thesis by (simp add: pre_install_def)
  next
    case (Returned x)
    show ?thesis
    proof (cases "truthy (err s1)")
      case True
      with Returned Cons.prems(1) ex have "c = EarlyReturn" "s' = log (ENext (err s1)) s1"
        by simp_all
      with h e p show ?thesis by (simp add: pre_install_def err_inv_def)
    next
      case False
      with Returned Cons.prems(1) ex have r: "run_use opts (Suc i) fns s1 = (c, s')" by simp
      have "pre_install (Fallthrough, s1)" using h e p False by (simp add: pre_install_def)
      from Cons.IH [OF r this] show ?thesis .
    qed
  qed
qed

lemma parse_field_pre_install:
  "parse_field opts f t s = (c, s') \<Longrightarrow> f \<noteq> Result \<Longrightarrow> pre_install (Fallthrough, s)
     \<Longrightarrow> pre_install (c, s')"
  by (cases t) (auto simp: pre_install_def err_inv_def Let_def split: sum.splits)

lemma init_pre_install: "pre_install (Fallthrough, init req0 hs0)"
  by (simp add: pre_install_def init_def err_inv_def)


lemma and_then_parse_pre_install:
  assumes "pre_install x" and "f \<noteq> Result"
  shows "pre_install (and_then x (parse_field opts f t))"
proof (cases "and_then x (parse_field opts f t)")
  case (Pair c s')
  have "pre_install (c, s')"
  proof (rule and_then_rel [where P = pre_install, OF Pair assms(1)])
    fix s1 assume "x = (Fallthrough, s1)" and "parse_field opts f t s1 = (c, s')"
    with assms show "pre_install (c, s')" using parse_field_pre_install by blast
  qed
  with Pair show ?thesis by simp
qed

lemma run_use_init_pre_install: "pre_install (run_use opts 0 fns (init req0 hs0))"
  using run_use_pre_install [OF _ init_pre_install]
  by (cases "run_use opts 0 fns (init req0 hs0)") auto

lemma before_handler_cases:
  assumes "before_handler opts node_env rt (init req0 hs0) = (c, s)"
  shows "(c \<noteq> Fallthrough \<and> pre_install (c, s)) \<or>
         (c = Fallthrough \<and> (\<exists>s1. pre_install (Fallthrough, s1) \<and>
            s = install (checkResult_of opts node_env) (objectToType (object opts) (result rt)) s1))"
proof -
  let ?x = "and_then (and_then (and_then
       (run_use opts 0 (use_list (use rt)) (init req0 hs0))
       (parse_field opts Query (objectToType (object opts) (query rt))))
       (parse_field opts Params (objectToType (object opts) (params rt))))
       (parse_field opts Body (objectToType (object opts) (body rt)))"
  have px: "pre_install ?x"
    by (intro and_then_parse_pre_install run_use_init_pre_install) simp_all
  obtain c1 s1 where x: "?x = (c1, s1)" by (cases ?x)
  from assms have "and_then ?x (\<lambda>s. (Fallthrough,
      install (checkResult_of opts node_env) (objectToType (object opts) (result rt)) s)) = (c, s)"
    by (simp add: before_handler_def)
  with x px show ?thesis by (cases c1) auto
qed

lemma install_props:
  assumes "pre_install (Fallthrough, s1)" and "s = install chk r s1"
  shows "slot_inv s" "err_inv s" "next_args (trace s) = []" "handler_calls (trace s) = []"
    "result_parses (trace s) = []" "\<not> truthy (err s)" "req s = req s1"
    "headersSent s = headersSent s1" "transmits (trace s) = transmits (trace s1)"
    "installs (trace s) \<noteq> [] \<longleftrightarrow> chk \<and> r \<noteq> None"
    "res_send s = (if chk then case r of None \<Rightarrow> HostSend | Some t \<Rightarrow> Wrapper HostSend t
                   else HostSend)"
  using assms
  by (cases r; cases chk; simp add: pre_install_def slot_inv_def err_inv_def)+

lemma slot_inv_log [simp]: "slot_inv (log e s) = slot_inv s"
  by (simp add: slot_inv_def split: option.splits)

lemma before_handler_in_try:
  assumes "before_handler opts node_env rt (init req0 hs0) = (c, s)"
  shows "in_try (c, s)" and "handler_calls (trace s) = []"
proof -
  from before_handler_cases [OF assms]
  consider (stop) "c \<noteq> Fallthrough" "pre_install (c, s)"
    | (go) s1 where "c = Fallthrough" "pre_install (Fallthrough, s1)"
        "s = install (checkResult_of opts node_env) (objectToType (object opts) (result rt)) s1"
    by blast
  then have "in_try (c, s) \<and> handler_calls (trace s) = []"
  proof cases
    case stop
    then show ?thesis by (auto simp: in_try_def pre_install_def slot_inv_def)
  next
    case go
    from install_props(1-4) [OF go(2,3)] go(1) show ?thesis by (simp add: in_try_def)
  qed
  then show "in_try (c, s)" and "handler_calls (trace s) = []" by simp_all
qed

lemma before_handler_Fallthrough:
  assumes "before_handler opts node_env rt (init req0 hs0) = (Fallthrough, s)"
  shows "slot_inv s" "err_inv s" "next_args (trace s) = []" "handler_calls (trace s) = []"
    "result_parses (trace s) = []" "\<not> truthy (err s)"
    "installs (trace s) \<noteq> [] \<longleftrightarrow>
       checkResult_of opts node_env \<and> objectToType (object opts) (result rt) \<noteq> None"
    "res_send s = (if checkResult_of opts node_env
                   then case objectToType (object opts) (result rt) of
                          None \<Rightarrow> HostSend | Some t \<Rightarrow> Wrapper HostSend t
                   else HostSend)"
proof -
  from before_handler_cases [OF assms] obtain s1 where
    p: "pre_install (Fallthrough, s1)" and
    e: "s = install (checkResult_of opts node_env) (objectToType (object opts) (result rt)) s1"
    by blast
  note ip = install_props [OF p e]
  show "slot_inv s" "err_inv s" "next_args (trace s) = []" "handler_calls (trace s) = []"
    "result_parses (trace s) = []" "\<not> truthy (err s)"
    by (rule ip)+
  show "installs (trace s) \<noteq> [] \<longleftrightarrow>
       checkResult_of opts node_env \<and> objectToType (object opts) (result rt) \<noteq> None"
    by (rule ip)
  show "res_send s = (if checkResult_of opts node_env
                   then case objectToType (object opts) (result rt) of
                          None \<Rightarrow> HostSend | Some t \<Rightarrow> Wrapper HostSend t
                   else HostSend)"
    by (rule ip)
qed

lemma call_send_picks:
  assumes "call_send opts v s = (x, s')"
  shows "next_args (trace s') = next_args (trace s)"
    and "handler_calls (trace s') = handler_calls (trace s)"
    and "installs (trace s') = installs (trace s)"
    and "err s' = err s"
    and "mw_calls (trace s') = mw_calls (trace s)"
    and "field_parses (trace s') = field_parses (trace s)"
    and "req s' = req s"
proof -
  from call_send_trace [OF assms] obtain evs where
    evs: "trace s' = trace s @ evs" "list_all prog_event evs" by blast
  show "next_args (trace s') = next_args (trace s)"
    using evs pick_none [OF evs(2), of next_arg] by (simp add: prog_event_cases)
  show "handler_calls (trace s') = handler_calls (trace s)"
    using evs pick_none [OF evs(2), of handler_call] by (simp add: prog_event_cases)
  show "installs (trace s') = installs (trace s)"
    using evs pick_none [OF evs(2), of install_ev] by (simp add: prog_event_cases)
  show "mw_calls (trace s') = mw_calls (trace s)"
    using evs pick_none [OF evs(2), of mw_call] by (simp add: prog_event_cases)
  show "field_parses (trace s') = field_parses (trace s)"
    using evs pick_none [OF evs(2), of field_parse] by (simp add: prog_event_cases)
  show "err s' = err s" "req s' = req s"
    using apply_send_frame assms unfolding call_send_def by blast+
qed

lemma invoke_handler_in_try:
  assumes "invoke_handler opts rt s = (c, s')" and "in_try (Fallthrough, s)"
  shows "in_try (c, s')" and "c \<noteq> EarlyReturn"
proof -
  obtain out s1 where ex: "exec opts (handler rt (req s)) (log (EHandler (req s)) s) = (out, s1)"
    by (cases "exec opts (handler rt (req s)) (log (EHandler (req s)) s)")
  from assms(2) have "slot_inv (log (EHandler (req s)) s)" "err_inv (log (EHandler (req s)) s)"
    "next_args (trace (log (EHandler (req s)) s)) = []"
    by (simp_all add: in_try_def err_inv_def)
  with exec_slot [OF ex] exec_err [OF ex] exec_picks(1) [OF ex]
  have s1: "slot_inv s1" "err_inv s1" "next_args (trace s1) = []" by simp_all
  show "in_try (c, s')" "c \<noteq> EarlyReturn"
  proof -
    consider (thrown) e where "out = Thrown e"
      | (skip) v where "out = Returned v" "\<not> (\<not> headersSent s1 \<and> \<not> truthy (err s1))"
      | (send) v where "out = Returned v" "\<not> headersSent s1 \<and> \<not> truthy (err s1)"
      by (cases out) auto
    then have "in_try (c, s') \<and> c \<noteq> EarlyReturn"
    proof cases
      case thrown
      with assms(1) ex s1 show ?thesis by (auto simp: invoke_handler_def in_try_def)
    next
      case skip
      with assms(1) ex s1 show ?thesis by (auto simp: invoke_handler_def in_try_def)
    next
      case send
      obtain x s2 where cs: "call_send opts v s1 = (x, s2)" by (cases "call_send opts v s1")
      from call_send_slot [OF cs] call_send_err [OF cs] call_send_picks(1) [OF cs] s1
      have "slot_inv s2" "err_inv s2" "next_args (trace s2) = []" by simp_all
      with send assms(1) ex cs show ?thesis
        by (cases x) (auto simp: invoke_handler_def in_try_def)
    qed
    then show "in_try (c, s')" "c \<noteq> EarlyReturn" by simp_all
  qed
qed

lemma try_block_in_try:
  assumes "try_block opts node_env rt (init req0 hs0) = (c, s)"
  shows "in_try (c, s)"
proof -
  obtain c1 s1 where b: "before_handler opts node_env rt (init req0 hs0) = (c1, s1)"
    by (cases "before_handler opts node_env rt (init req0 hs0)")
  from assms b have a: "and_then (c1, s1) (invoke_handler opts rt) = (c, s)"
    by (simp add: try_block_def)
  show ?thesis
    by (rule and_then_rel [where P = in_try, OF a before_handler_in_try(1) [OF b]])
       (use before_handler_in_try(1) [OF b] invoke_handler_in_try(1) in blast)
qed

lemma finish_simps [simp]:
  "err (finish s) = err s" "req (finish s) = req s" "headersSent (finish s) = headersSent s"
  "trace (finish s) = trace s @ [ENext (err s)]"
  "res_send (finish s) = (case originalSend s of None \<Rightarrow> res_send s | Some f \<Rightarrow> f)"
  by (simp_all add: finish_def Let_def split: option.splits)

lemma routine_final:
  "next_args (trace (request_routine opts node_env rt req0 hs0))
     = [err (request_routine opts node_env rt req0 hs0)]"
  "err_inv (request_routine opts node_env rt req0 hs0)"
  "res_send (request_routine opts node_env rt req0 hs0) = HostSend"
proof -
  obtain c s where t: "try_block opts node_env rt (init req0 hs0) = (c, s)"
    by (cases "try_block opts node_env rt (init req0 hs0)")
  have i: "in_try (c, s)" by (rule try_block_in_try [OF t])
  show "next_args (trace (request_routine opts node_env rt req0 hs0))
     = [err (request_routine opts node_env rt req0 hs0)]"
    using t i by (cases c) (simp_all add: request_routine_def in_try_def)
  show "err_inv (request_routine opts node_env rt req0 hs0)"
    using t i by (cases c) (simp_all add: request_routine_def in_try_def err_inv_def)
  show "res_send (request_routine opts node_env rt req0 hs0) = HostSend"
    using t i by (cases c) (auto simp: request_routine_def in_try_def slot_inv_def split: option.splits)
qed



lemma exec_mw:
  "exec opts p s = (out, s') \<Longrightarrow> res_send s = HostSend \<Longrightarrow>
     (case step_thrown p of Some e \<Rightarrow> out = Thrown e | None \<Rightarrow> (\<exists>v. out = Returned v))
     \<and> err s' = (case step_last_signal p of None \<Rightarrow> err s | Some e \<Rightarrow> e)
     \<and> req s' = step_extension p (req s)"
proof (induction p arbitrary: s)
  case (Send v p h)
  then have "exec opts p (host_send v s) = (out, s')" by (simp add: call_send_def)
  from Send.IH(1) [OF this] Send.prems(2) show ?case by (simp split: option.splits)
qed (auto split: option.splits)

lemma run_use_append:
  "run_use opts i pre s = (Fallthrough, s1) \<Longrightarrow>
     run_use opts i (pre @ rest) s = run_use opts (i + length pre) rest s1"
  by (induction pre arbitrary: i s) (auto split: prod.splits outcome.splits if_splits)

lemma run_use_ok:
  "chain_ok fns (req s) \<Longrightarrow> pre_install (Fallthrough, s) \<Longrightarrow>
     \<exists>s'. run_use opts i fns s = (Fallthrough, s')
       \<and> req s' = chain_context fns (req s)
       \<and> mw_calls (trace s') = mw_calls (trace s)
            @ map (\<lambda>j. (i + j, chain_context (take j fns) (req s))) [0..<length fns]
       \<and> field_parses (trace s') = field_parses (trace s)"
proof (induction fns arbitrary: i s)
  case Nil
  then show ?case by simp
next
  case (Cons fn fns)
  obtain out s1 where ex: "exec opts (fn (req s)) (log (EMw i (req s)) s) = (out, s1)"
    by (cases "exec opts (fn (req s)) (log (EMw i (req s)) s)")
  from Cons.prems have ok: "step_failure (fn (req s)) = None"
    and rest: "chain_ok fns (step_extension (fn (req s)) (req s))"
    and hs: "res_send s = HostSend" and nf: "\<not> truthy (err s)"
    by (simp_all add: pre_install_def)
  from exec_mw [OF ex] hs ok nf obtain v where
    out: "out = Returned v" and e1: "\<not> truthy (err s1)"
    and r1: "req s1 = step_extension (fn (req s)) (req s)"
    by (auto simp: step_failure_def split: option.splits if_splits)
  have "pre_install (run_use opts i [fn] s)"
    using run_use_pre_install [OF _ Cons.prems(2), of opts i "[fn]"]
    by (cases "run_use opts i [fn] s") auto
  with ex out e1 have p1: "pre_install (Fallthrough, s1)" by simp
  from rest r1 have "chain_ok fns (req s1)" by simp
  from Cons.IH [OF this p1, of "Suc i"] obtain s' where
    r: "run_use opts (Suc i) fns s1 = (Fallthrough, s')"
    and c: "req s' = chain_context fns (req s1)"
    and m: "mw_calls (trace s') = mw_calls (trace s1)
            @ map (\<lambda>j. (Suc i + j, chain_context (take j fns) (req s1))) [0..<length fns]"
    and f: "field_parses (trace s') = field_parses (trace s1)"
    by auto
  have m1: "mw_calls (trace s1) = mw_calls (trace s) @ [(i, req s)]"
    and f1: "field_parses (trace s1) = field_parses (trace s)"
    using exec_picks [OF ex] by simp_all
  have "run_use opts i (fn # fns) s = (Fallthrough, s')" using ex out e1 r by simp
  moreover have "req s' = chain_context (fn # fns) (req s)" using c r1 by simp
  moreover have "mw_calls (trace s') = mw_calls (trace s)
            @ map (\<lambda>j. (i + j, chain_context (take j (fn # fns)) (req s))) [0..<length (fn # fns)]"
    using m m1 r1 by (simp add: map_upt_Suc del: upt_Suc)
  moreover have "field_parses (trace s') = field_parses (trace s)" using f f1 by simp
  ultimately show ?case by simp
qed


lemma run_use_fail:
  assumes "step_failure (fn (req s)) = Some e" and "pre_install (Fallthrough, s)"
  shows "\<exists>c s'. run_use opts i (fn # post) s = (c, s')
     \<and> (c = EarlyReturn \<and> err s' = e \<or> c = Exception e)
     \<and> mw_calls (trace s') = mw_calls (trace s) @ [(i, req s)]
     \<and> field_parses (trace s') = field_parses (trace s)"
proof -
  obtain out s1 where ex: "exec opts (fn (req s)) (log (EMw i (req s)) s) = (out, s1)"
    by (cases "exec opts (fn (req s)) (log (EMw i (req s)) s)")
  from assms(2) have hs: "res_send s = HostSend" by (simp add: pre_install_def)
  have m1: "mw_calls (trace s1) = mw_calls (trace s) @ [(i, req s)]"
    and f1: "field_parses (trace s1) = field_parses (trace s)"
    using exec_picks [OF ex] by simp_all
  show ?thesis
  proof (cases "step_thrown (fn (req s))")
    case (Some x)
    with assms(1) have "x = e" by (simp add: step_failure_def)
    with Some exec_mw [OF ex] hs have "out = Thrown e" by simp
    with ex m1 f1 show ?thesis by simp
  next
    case None
    with assms(1) have "step_last_signal (fn (req s)) = Some e" "truthy e"
      by (auto simp: step_failure_def split: option.splits if_splits)
    with None exec_mw [OF ex] hs obtain v where "out = Returned v" "err s1 = e" by auto
    with ex m1 f1 \<open>truthy e\<close> show ?thesis by simp
  qed
qed

lemma parse_field_cases:
  "parse_field opts f None s = (Fallthrough, s)"
  "parse opts t (get_prop (req s) (field_key f)) = Inl e \<Longrightarrow>
     parse_field opts f (Some t) s = (Exception e, log (EParse f (get_prop (req s) (field_key f))) s)"
  "parse opts t (get_prop (req s) (field_key f)) = Inr v \<Longrightarrow>
     parse_field opts f (Some t) s
       = (Fallthrough, (log (EParse f (get_prop (req s) (field_key f))) s)
            \<lparr> req := set_prop (field_key f) v (req s) \<rparr>)"
  by (simp_all add: Let_def)

lemma fields_refine:
  assumes "spec_validate (parse opts) [(Query, q), (Params, p), (Body, b)] (req s) = (evs, res)"
  shows "\<exists>c s'. and_then (and_then (parse_field opts Query q s) (parse_field opts Params p))
              (parse_field opts Body b) = (c, s')
     \<and> field_parses (trace s') = field_parses (trace s) @ evs
     \<and> mw_calls (trace s') = mw_calls (trace s)
     \<and> (case res of Inl e \<Rightarrow> c = Exception e | Inr r \<Rightarrow> c = Fallthrough \<and> req s' = r)"
  using assms
  by (cases q; cases p; cases b)
     (auto simp: Let_def split: sum.splits prod.splits)


lemma routine_EarlyReturn:
  "before_handler opts node_env rt (init req0 hs0) = (EarlyReturn, s) \<Longrightarrow>
     request_routine opts node_env rt req0 hs0 = s"
  by (simp add: request_routine_def try_block_def)

lemma routine_Exception:
  "before_handler opts node_env rt (init req0 hs0) = (Exception e, s) \<Longrightarrow>
     request_routine opts node_env rt req0 hs0 = finish (log (ECaught e) (s\<lparr> err := e \<rparr>))"
  by (simp add: request_routine_def try_block_def)

lemma routine_Fallthrough:
  "before_handler opts node_env rt (init req0 hs0) = (Fallthrough, s) \<Longrightarrow>
     request_routine opts node_env rt req0 hs0 =
       (case invoke_handler opts rt s of
          (EarlyReturn, s') \<Rightarrow> s'
        | (Fallthrough, s') \<Rightarrow> finish s'
        | (Exception e, s') \<Rightarrow> finish (log (ECaught e) (s'\<lparr> err := e \<rparr>)))"
  by (simp add: request_routine_def try_block_def)

lemma routine_handled:
  assumes "before_handler opts node_env rt (init req0 hs0) = (Fallthrough, s)"
  shows "handler_calls (trace (request_routine opts node_env rt req0 hs0)) = [req s]"
    and "mw_calls (trace (request_routine opts node_env rt req0 hs0)) = mw_calls (trace s)"
    and "field_parses (trace (request_routine opts node_env rt req0 hs0)) = field_parses (trace s)"
    and "installs (trace (request_routine opts node_env rt req0 hs0)) = installs (trace s)"
proof -
  let ?R = "request_routine opts node_env rt req0 hs0"
  obtain out s1 where ex: "exec opts (handler rt (req s)) (log (EHandler (req s)) s) = (out, s1)"
    by (cases "exec opts (handler rt (req s)) (log (EHandler (req s)) s)")
  have h0: "handler_calls (trace s) = []" by (rule before_handler_in_try(2) [OF assms])
  have p1: "handler_calls (trace s1) = [req s]" "mw_calls (trace s1) = mw_calls (trace s)"
    "field_parses (trace s1) = field_parses (trace s)" "installs (trace s1) = installs (trace s)"
    using exec_picks [OF ex] h0 by simp_all
  have "handler_calls (trace ?R) = [req s] \<and> mw_calls (trace ?R) = mw_calls (trace s)
     \<and> field_parses (trace ?R) = field_parses (trace s)
     \<and> installs (trace ?R) = installs (trace s)"
  proof (cases out)
    case (Thrown e)
    with ex p1 show ?thesis
      by (simp add: routine_Fallthrough [OF assms] invoke_handler_def)
  next
    case (Returned v)
    obtain x s2 where cs: "call_send opts v s1 = (x, s2)" by (cases "call_send opts v s1")
    from call_send_picks [OF cs] p1 have p2: "handler_calls (trace s2) = [req s]"
      "mw_calls (trace s2) = mw_calls (trace s)" "field_parses (trace s2) = field_parses (trace s)"
      "installs (trace s2) = installs (trace s)"
      by simp_all
    from Returned ex cs p1 p2 show ?thesis
      by (cases x) (simp_all add: routine_Fallthrough [OF assms] invoke_handler_def)
  qed
  then show "handler_calls (trace ?R) = [req s]" "mw_calls (trace ?R) = mw_calls (trace s)"
    "field_parses (trace ?R) = field_parses (trace s)"
    "installs (trace ?R) = installs (trace s)" by simp_all
qed

lemma before_handler_use_stop:
  "run_use opts 0 (use_list (use rt)) s0 = (c, s) \<Longrightarrow> c \<noteq> Fallthrough \<Longrightarrow>
     before_handler opts node_env rt s0 = (c, s)"
  by (cases c) (simp_all add: before_handler_def)

lemma install_picks [simp]:
  "req (install chk r s) = req s" "err (install chk r s) = err s"
  "headersSent (install chk r s) = headersSent s"
  "mw_calls (trace (install chk r s)) = mw_calls (trace s)"
  "field_parses (trace (install chk r s)) = field_parses (trace s)"
  "handler_calls (trace (install chk r s)) = handler_calls (trace s)"
  "next_args (trace (install chk r s)) = next_args (trace s)"
  "transmits (trace (install chk r s)) = transmits (trace s)"
  by (cases r; simp)+

lemma routine_chain_ok:
  assumes ok: "chain_ok (use_list (use rt)) req0"
    and sv: "spec_validate (parse opts) (field_schemas opts rt)
               (chain_context (use_list (use rt)) req0) = (evs, res)"
  shows "mw_calls (trace (request_routine opts node_env rt req0 hs0))
           = map (\<lambda>j. (j, chain_context (take j (use_list (use rt))) req0))
               [0..<length (use_list (use rt))]"
    and "field_parses (trace (request_routine opts node_env rt req0 hs0)) = evs"
    and "case res of
           Inl e \<Rightarrow> handler_calls (trace (request_routine opts node_env rt req0 hs0)) = []
                  \<and> next_args (trace (request_routine opts node_env rt req0 hs0)) = [e]
                  \<and> err (request_routine opts node_env rt req0 hs0) = e
         | Inr r \<Rightarrow> handler_calls (trace (request_routine opts node_env rt req0 hs0)) = [r]"
proof -
  let ?R = "request_routine opts node_env rt req0 hs0"
  let ?fns = "use_list (use rt)"
  let ?s0 = "init req0 hs0 :: 'a st"
  have r0: "req ?s0 = req0" "trace ?s0 = []" by (simp_all add: init_def)
  from run_use_ok [OF _ init_pre_install, of ?fns req0 hs0 opts 0] ok r0
  obtain s1 where ru: "run_use opts 0 ?fns ?s0 = (Fallthrough, s1)"
    and c1: "req s1 = chain_context ?fns req0"
    and m1: "mw_calls (trace s1) = map (\<lambda>j. (j, chain_context (take j ?fns) req0)) [0..<length ?fns]"
    and f1: "field_parses (trace s1) = []"
    by auto
  have p1: "pre_install (Fallthrough, s1)"
    using run_use_pre_install [OF ru init_pre_install] .
  from sv c1 have "spec_validate (parse opts)
      [(Query, objectToType (object opts) (query rt)),
       (Params, objectToType (object opts) (params rt)),
       (Body, objectToType (object opts) (body rt))] (req s1) = (evs, res)"
    by (simp add: field_schemas_def)
  from fields_refine [OF this] obtain c s2 where
    fs: "and_then (and_then (parse_field opts Query (objectToType (object opts) (query rt)) s1)
            (parse_field opts Params (objectToType (object opts) (params rt))))
            (parse_field opts Body (objectToType (object opts) (body rt))) = (c, s2)"
    and f2: "field_parses (trace s2) = field_parses (trace s1) @ evs"
    and m2: "mw_calls (trace s2) = mw_calls (trace s1)"
    and r2: "case res of Inl e \<Rightarrow> c = Exception e | Inr r \<Rightarrow> c = Fallthrough \<and> req s2 = r"
    by blast
  have bh: "before_handler opts node_env rt ?s0 =
      and_then (c, s2) (\<lambda>s. (Fallthrough,
        install (checkResult_of opts node_env) (objectToType (object opts) (result rt)) s))"
    using ru fs by (simp add: before_handler_def)
  have "mw_calls (trace ?R) = map (\<lambda>j. (j, chain_context (take j ?fns) req0)) [0..<length ?fns]
    \<and> field_parses (trace ?R) = evs
    \<and> (case res of
           Inl e \<Rightarrow> handler_calls (trace ?R) = [] \<and> next_args (trace ?R) = [e] \<and> err ?R = e
         | Inr r \<Rightarrow> handler_calls (trace ?R) = [r])"
  proof (cases res)
    case (Inl e)
    with r2 bh have b: "before_handler opts node_env rt ?s0 = (Exception e, s2)" by simp
    from before_handler_in_try [OF b] have "next_args (trace s2) = []" "handler_calls (trace s2) = []"
      by (simp_all add: in_try_def)
    with Inl m1 m2 f1 f2 show ?thesis by (simp add: routine_Exception [OF b])
  next
    case (Inr r)
    with r2 bh have b: "before_handler opts node_env rt ?s0 = (Fallthrough,
        install (checkResult_of opts node_env) (objectToType (object opts) (result rt)) s2)"
      and rr: "req s2 = r" by simp_all
    from routine_handled [OF b] Inr rr m1 m2 f1 f2 show ?thesis by simp
  qed
  then show "mw_calls (trace ?R) = map (\<lambda>j. (j, chain_context (take j ?fns) req0)) [0..<length ?fns]"
    and "field_parses (trace ?R) = evs"
    and "case res of
           Inl e \<Rightarrow> handler_calls (trace ?R) = [] \<and> next_args (trace ?R) = [e] \<and> err ?R = e
         | Inr r \<Rightarrow> handler_calls (trace ?R) = [r]"
    by simp_all
qed

lemma falsy_writes:
  "list_all (\<lambda>w. \<not> truthy w) (slot_writes tr) \<Longrightarrow> \<not> truthy (last_write tr)"
  by (cases "rev (slot_writes tr)")
     (auto simp: last_write_def list_all_iff dest: arg_cong [where f = set])

lemma routine_stopped:
  assumes "before_handler opts node_env rt (init req0 hs0) = (c, s)" and "c \<noteq> Fallthrough"
  shows "installs (trace (request_routine opts node_env rt req0 hs0)) = []"
    and "handler_calls (trace (request_routine opts node_env rt req0 hs0)) = []"
    and "result_parses (trace (request_routine opts node_env rt req0 hs0)) = []"
proof -
  from before_handler_cases [OF assms(1)] assms(2) have p: "pre_install (c, s)" by blast
  then have "installs (trace s) = []" "handler_calls (trace s) = []" "result_parses (trace s) = []"
    by (simp_all add: pre_install_def)
  with assms show "installs (trace (request_routine opts node_env rt req0 hs0)) = []"
    and "handler_calls (trace (request_routine opts node_env rt req0 hs0)) = []"
    and "result_parses (trace (request_routine opts node_env rt req0 hs0)) = []"
    by (cases c; simp add: routine_EarlyReturn routine_Exception)+
qed

lemma no_interceptor_no_result_parse:
  assumes "\<not> (checkResult_of opts node_env \<and> objectToType (object opts) (result rt) \<noteq> None)"
  shows "result_parses (trace (request_routine opts node_env rt req0 hs0)) = []"
proof -
  let ?R = "request_routine opts node_env rt req0 hs0"
  obtain c s where bh: "before_handler opts node_env rt (init req0 hs0) = (c, s)"
    by (cases "before_handler opts node_env rt (init req0 hs0)")
  show ?thesis
  proof (cases "c = Fallthrough")
    case False
    from routine_stopped(3) [OF bh False] show ?thesis .
  next
    case True
    with bh have b: "before_handler opts node_env rt (init req0 hs0) = (Fallthrough, s)" by simp
    note f = before_handler_Fallthrough [OF b]
    from f(8) assms have hs: "res_send s = HostSend" by (auto split: option.splits)
    obtain out s1 where ex: "exec opts (handler rt (req s)) (log (EHandler (req s)) s) = (out, s1)"
      by (cases "exec opts (handler rt (req s)) (log (EHandler (req s)) s)")
    from exec_host [OF ex] hs f(5) have h1: "res_send s1 = HostSend" "result_parses (trace s1) = []"
      by simp_all
    show ?thesis
    proof (cases out)
      case (Thrown e)
      with ex h1 show ?thesis by (simp add: routine_Fallthrough [OF b] invoke_handler_def)
    next
      case (Returned v)
      with ex h1 show ?thesis
        by (simp add: routine_Fallthrough [OF b] invoke_handler_def call_send_simps)
    qed
  qed
qed

lemma exec_prelude: "exec opts p s = exec opts (first_act p) (prelude_state p s)"
  by (induction p arbitrary: s) simp_all

lemma prelude_state_frame [simp]:
  "res_send (prelude_state p s) = res_send s"
  "originalSend (prelude_state p s) = originalSend s"
  "headersSent (prelude_state p s) = headersSent s"
  "transmits (trace (prelude_state p s)) = transmits (trace s)"
  "next_args (trace (prelude_state p s)) = next_args (trace s)"
  by (induction p arbitrary: s; simp)+

lemma prelude_state_err:
  "err (prelude_state p s) = (if prelude_signals p = [] then err s else last (prelude_signals p))"
  by (induction p arbitrary: s) simp_all

lemma install_originalSend:
  assumes "pre_install (Fallthrough, s1)" and "s = install chk r s1"
  shows "originalSend s = (if chk \<and> r \<noteq> None then Some HostSend else None)"
  using assms by (cases r; cases chk; simp add: pre_install_def)

lemma before_handler_slots:
  assumes "before_handler opts node_env rt (init req0 hs0) = (c, s)"
  shows "c \<noteq> Fallthrough \<Longrightarrow> res_send s = HostSend \<and> originalSend s = None"
    and "c = Fallthrough \<Longrightarrow>
       originalSend s = (if checkResult_of opts node_env
                              \<and> objectToType (object opts) (result rt) \<noteq> None
                         then Some HostSend else None)"
proof -
  show "c \<noteq> Fallthrough \<Longrightarrow> res_send s = HostSend \<and> originalSend s = None"
    using before_handler_cases [OF assms] by (auto simp: pre_install_def)
  show "c = Fallthrough \<Longrightarrow>
       originalSend s = (if checkResult_of opts node_env
                              \<and> objectToType (object opts) (result rt) \<noteq> None
                         then Some HostSend else None)"
    using before_handler_cases [OF assms] install_originalSend by blast
qed

lemmas run_defs = request_routine_def try_block_def before_handler_def invoke_handler_def
  call_send_def finish_def init_def log_def host_send_def checkResult_of_def

lemmas test_defs = test_opts_def plain_route_def test_parse_def step_add_user_def step_fails_def
  step_idle_def step_fresh_object_def test_value_def handler_reads_user_def
  handler_signals_then_throws_def route_fresh_object_def route_signals_then_throws_def

lemmas more_defs = invalid_value_def handler_catches_send_failure_def
  handler_signals_then_sends_invalid_def route_catches_send_failure_def
  route_signals_then_sends_invalid_def route_result_after_failing_step_def
  handler_signals_then_sends_def handler_signals_then_returns_def
  handler_assigns_then_returns_invalid_def handler_assigns_then_sends_invalid_def

lemma before_handler_result_route:
  "before_handler test_opts None ((plain_route h) \<lparr> result := Some (Schema ()) \<rparr>) (init [] False)
     = (Fallthrough, installed_state)"
  by (simp add: run_defs test_defs installed_state_def)

section \<open>The claims\<close>

text \<open>
  C1, as stated, fails: the value a step returns is not used. A step that returns a new
  object extending the request, without assigning to the request object, changes nothing
  for the next step or for the handler.
\<close>

theorem returned_context_counterexample:
  "step_fresh_object [] = Return (VObj [(''user'', VObj [(''id'', VNum 1)])])
   \<and> mw_calls (trace (request_routine test_opts None route_fresh_object [] False))
       = [(0, []), (1, [])]
   \<and> handler_calls (trace (request_routine test_opts None route_fresh_object [] False))
       = [ [] ]
   \<and> handler_calls (trace (request_routine test_opts None route_fresh_object [] False))
       \<noteq> [ [(''user'', VObj [(''id'', VNum 1)])] ]
   \<and> transmits (trace (request_routine test_opts None route_fresh_object [] False))
       = [VUndefined]"
  by (simp add: run_defs test_defs)

text \<open>
  C1, amended: in a chain with no failures, each step is called with the request object as
  the steps before it left it (what they assigned to it, in list order), whatever they
  returned; the handler is called with that same object after all steps, with the
  validated fields replaced.
\<close>

theorem context_extension_in_place:
  assumes "chain_ok (use_list (use rt)) req0"
  shows "mw_calls (trace (request_routine opts node_env rt req0 hs0))
           = map (\<lambda>j. (j, chain_context (take j (use_list (use rt))) req0))
               [0..<length (use_list (use rt))]
    \<and> (\<forall>r. snd (spec_validate (parse opts) (field_schemas opts rt)
                  (chain_context (use_list (use rt)) req0)) = Inr r
          \<longrightarrow> handler_calls (trace (request_routine opts node_env rt req0 hs0)) = [r])"
proof -
  obtain evs res where sv: "spec_validate (parse opts) (field_schemas opts rt)
      (chain_context (use_list (use rt)) req0) = (evs, res)"
    by (cases "spec_validate (parse opts) (field_schemas opts rt)
      (chain_context (use_list (use rt)) req0)")
  from routine_chain_ok(1,3) [OF assms sv, of node_env hs0] sv show ?thesis
    by (auto split: sum.splits)
qed

theorem context_extension_in_place_witness:
  "chain_ok [step_add_user, step_idle] []
   \<and> mw_calls (trace (request_routine test_opts None
        ((plain_route (\<lambda>r. Return (get_prop r ''user'')))
           \<lparr> use := Some (Many [step_add_user, step_idle]) \<rparr>) [] False))
       = [(0, []), (1, [(''user'', VObj [(''id'', VNum 1)])])]
   \<and> handler_calls (trace (request_routine test_opts None
        ((plain_route (\<lambda>r. Return (get_prop r ''user'')))
           \<lparr> use := Some (Many [step_add_user, step_idle]) \<rparr>) [] False))
       = [ [(''user'', VObj [(''id'', VNum 1)])] ]"
proof -
  have h: "chain_ok (use_list (use ((plain_route (\<lambda>r. Return (get_prop r ''user'')))
           \<lparr> use := Some (Many [step_add_user, step_idle]) \<rparr>))) []"
    by (simp add: plain_route_def step_add_user_def step_idle_def step_failure_def)
  from context_extension_in_place [OF h, of test_opts None False] h
  show ?thesis
    by (simp add: plain_route_def step_add_user_def step_idle_def field_schemas_def
        upt_rec [of 0] upt_rec [of 1])
qed

text \<open>
  C2, as stated, fails: the error slot is assigned each time the error callable is
  called and once more when a thrown value is caught. A handler that calls the error
  callable and then throws assigns it twice, and the error-continuation receives the
  second value, not the first.
\<close>

theorem first_write_wins_counterexample:
  "slot_writes (trace (request_routine test_opts None route_signals_then_throws [] False))
     = [VStr ''signalled'', VStr ''thrown'']
   \<and> next_args (trace (request_routine test_opts None route_signals_then_throws [] False))
     = [VStr ''thrown'']
   \<and> next_args (trace (request_routine test_opts None route_signals_then_throws [] False))
     \<noteq> [VStr ''signalled'']"
  by (simp add: run_defs test_defs)

text \<open>
  C2, amended: the error slot is a single slot in which the last assignment wins. The
  error-continuation receives the value assigned last (\<open>undefined\<close> when there was no
  assignment), and that value is the content of the slot when the routine completes.
\<close>

theorem last_write_wins:
  "next_args (trace (request_routine opts node_env rt req0 hs0))
     = [last_write (trace (request_routine opts node_env rt req0 hs0))]
   \<and> err (request_routine opts node_env rt req0 hs0)
     = last_write (trace (request_routine opts node_env rt req0 hs0))"
  using routine_final(1,2) [of opts node_env rt req0 hs0] by (simp add: err_inv_def)

theorem last_write_wins_witness:
  "next_args (trace (request_routine test_opts None
      (plain_route (\<lambda>r. CallNext (VStr ''first'') (CallNext (VStr ''second'') (Return VNull))))
      [] False)) = [VStr ''second'']"
  using last_write_wins [of test_opts None
      "plain_route (\<lambda>r. CallNext (VStr ''first'') (CallNext (VStr ''second'') (Return VNull)))"
      "[]" False]
  by (simp add: run_defs test_defs)

text \<open>
  C3: every invocation of the routine calls the host's error-continuation exactly once,
  with the content of the error slot; when nothing was assigned to the slot during the
  invocation, that content is \<open>undefined\<close>, that is, no error.
\<close>

theorem error_continuation_exactly_once:
  "next_args (trace (request_routine opts node_env rt req0 hs0))
     = [err (request_routine opts node_env rt req0 hs0)]
   \<and> (slot_writes (trace (request_routine opts node_env rt req0 hs0)) = []
        \<longrightarrow> err (request_routine opts node_env rt req0 hs0) = VUndefined)"
  using routine_final(1,2) [of opts node_env rt req0 hs0]
  by (simp add: err_inv_def last_write_def)

theorem error_continuation_exactly_once_witness:
  "slot_writes (trace (request_routine test_opts None
      (plain_route (\<lambda>r. Return (VNum 1))) [] False)) = []
   \<and> next_args (trace (request_routine test_opts None
      (plain_route (\<lambda>r. Return (VNum 1))) [] False)) = [VUndefined]"
  using error_continuation_exactly_once
    [of test_opts None "plain_route (\<lambda>r. Return (VNum 1))" "[]" False]
  by (simp add: run_defs test_defs)

text \<open>
  C4: after an invocation in which the wrapper was installed, \<open>res.send\<close> is the host's
  function again, whatever the handler did: a call \<open>res.send(v)\<close> made after the
  invocation is a call of the host's \<open>send\<close>.
\<close>

theorem send_restored_after_invocation:
  assumes "installs (trace (request_routine opts node_env rt req0 hs0)) \<noteq> []"
  shows "res_send (request_routine opts node_env rt req0 hs0) = HostSend
    \<and> call_send opts v (request_routine opts node_env rt req0 hs0)
        = (None, host_send v (request_routine opts node_env rt req0 hs0))"
  using routine_final(3) [of opts node_env rt req0 hs0] by (simp add: call_send_simps)

theorem send_restored_after_invocation_witness:
  "installs (trace (request_routine test_opts None
      ((plain_route (\<lambda>r. Throw (VStr ''Not found'')))\<lparr> result := Some (Schema ()) \<rparr>)
      [] False)) \<noteq> []
   \<and> res_send (request_routine test_opts None
      ((plain_route (\<lambda>r. Throw (VStr ''Not found'')))\<lparr> result := Some (Schema ()) \<rparr>)
      [] False) = HostSend"
proof -
  have i: "installs (trace (request_routine test_opts None
      ((plain_route (\<lambda>r. Throw (VStr ''Not found'')))\<lparr> result := Some (Schema ()) \<rparr>)
      [] False)) \<noteq> []"
    by (simp add: run_defs test_defs)
  from i send_restored_after_invocation [OF i] show ?thesis by simp
qed

text \<open>
  C5: when the steps before the \<open>k\<close>-th do not fail and the \<open>k\<close>-th step fails with
  \<open>e\<close> (it throws \<open>e\<close>, or it returns after calling the error callable with the error
  \<open>e\<close>), the steps after it are not called, no field is validated, the handler is not
  called, and the error-continuation receives \<open>e\<close>.
\<close>

theorem middleware_short_circuit:
  assumes "use_list (use rt) = pre @ fn # post"
    and "chain_ok pre req0"
    and "step_failure (fn (chain_context pre req0)) = Some e"
  shows "map fst (mw_calls (trace (request_routine opts node_env rt req0 hs0)))
           = [0..<Suc (length pre)]
    \<and> field_parses (trace (request_routine opts node_env rt req0 hs0)) = []
    \<and> handler_calls (trace (request_routine opts node_env rt req0 hs0)) = []
    \<and> next_args (trace (request_routine opts node_env rt req0 hs0)) = [e]"
proof -
  let ?R = "request_routine opts node_env rt req0 hs0"
  let ?s0 = "init req0 hs0 :: 'a st"
  have r0: "req ?s0 = req0" "trace ?s0 = []" by (simp_all add: init_def)
  from run_use_ok [OF _ init_pre_install, of pre req0 hs0 opts 0] assms(2) r0
  obtain s1 where ru: "run_use opts 0 pre ?s0 = (Fallthrough, s1)"
    and c1: "req s1 = chain_context pre req0"
    and m1: "mw_calls (trace s1) = map (\<lambda>j. (j, chain_context (take j pre) req0)) [0..<length pre]"
    and f1: "field_parses (trace s1) = []"
    by auto
  have p1: "pre_install (Fallthrough, s1)"
    using run_use_pre_install [OF ru init_pre_install] .
  from assms(3) c1 have sf: "step_failure (fn (req s1)) = Some e" by simp
  from run_use_fail [where fn = fn and s = s1 and e = e and opts = opts and i = "length pre"
      and post = post, OF sf p1] obtain c s2 where
    rf: "run_use opts (length pre) (fn # post) s1 = (c, s2)"
    and cc: "c = EarlyReturn \<and> err s2 = e \<or> c = Exception e"
    and m2: "mw_calls (trace s2) = mw_calls (trace s1) @ [(length pre, req s1)]"
    and f2: "field_parses (trace s2) = field_parses (trace s1)"
    by blast
  from run_use_append [OF ru, of "fn # post"] rf assms(1)
  have "run_use opts 0 (use_list (use rt)) ?s0 = (c, s2)" by simp
  moreover from cc have "c \<noteq> Fallthrough" by auto
  ultimately have b: "before_handler opts node_env rt ?s0 = (c, s2)"
    by (rule before_handler_use_stop)
  from before_handler_in_try [OF b] have i2: "handler_calls (trace s2) = []"
    "next_args (trace s2) = (if c = EarlyReturn then [err s2] else [])"
    by (simp_all add: in_try_def)
  have ms: "map fst (mw_calls (trace s2)) = [0..<Suc (length pre)]"
    using m1 m2 by (simp add: comp_def)
  from cc show ?thesis
  proof
    assume "c = EarlyReturn \<and> err s2 = e"
    with b have "?R = s2" and "c = EarlyReturn" "err s2 = e"
      by (simp_all add: routine_EarlyReturn)
    with i2 ms f1 f2 show ?thesis by simp
  next
    assume "c = Exception e"
    with b have "?R = finish (log (ECaught e) (s2\<lparr> err := e \<rparr>))" and "c = Exception e"
      by (simp_all add: routine_Exception)
    with i2 ms f1 f2 show ?thesis by simp
  qed
qed

theorem middleware_short_circuit_witness:
  "chain_ok [step_add_user] []
   \<and> step_failure (step_fails (chain_context [step_add_user] [])) = Some (VStr ''Unauthorized'')
   \<and> map fst (mw_calls (trace (request_routine test_opts None
        ((plain_route (\<lambda>r. Return VNull))
           \<lparr> use := Some (Many [step_add_user, step_fails, step_idle]) \<rparr>) [] False))) = [0, 1]
   \<and> handler_calls (trace (request_routine test_opts None
        ((plain_route (\<lambda>r. Return VNull))
           \<lparr> use := Some (Many [step_add_user, step_fails, step_idle]) \<rparr>) [] False)) = []
   \<and> next_args (trace (request_routine test_opts None
        ((plain_route (\<lambda>r. Return VNull))
           \<lparr> use := Some (Many [step_add_user, step_fails, step_idle]) \<rparr>) [] False))
       = [VStr ''Unauthorized'']"
proof -
  have h1: "use_list (use ((plain_route (\<lambda>r. Return VNull))
           \<lparr> use := Some (Many [step_add_user, step_fails, step_idle]) \<rparr>))
        = [step_add_user] @ step_fails # [step_idle]"
    by (simp add: plain_route_def)
  have h2: "chain_ok [step_add_user] []"
    by (simp add: step_add_user_def step_failure_def)
  have h3: "step_failure (step_fails (chain_context [step_add_user] [])) = Some (VStr ''Unauthorized'')"
    by (simp add: step_fails_def step_failure_def)
  from middleware_short_circuit [OF h1 h2 h3, of test_opts None False] h2 h3
  show ?thesis by simp
qed

text \<open>
  C6: after a chain with no failures, the validations that the routine makes and their
  result are those of \<open>spec_validate\<close> on query, params, body in this order: only fields
  with a schema, each replaced by its validated value; at the first failure nothing more is
  validated, the handler is not called, and the error slot and the error-continuation
  hold the error that \<open>parse\<close> threw.
\<close>

theorem field_validation_order:
  assumes "chain_ok (use_list (use rt)) req0"
    and "spec_validate (parse opts) (field_schemas opts rt)
           (chain_context (use_list (use rt)) req0) = (evs, res)"
  shows "field_parses (trace (request_routine opts node_env rt req0 hs0)) = evs
    \<and> (case res of
          Inl e \<Rightarrow> handler_calls (trace (request_routine opts node_env rt req0 hs0)) = []
                 \<and> next_args (trace (request_routine opts node_env rt req0 hs0)) = [e]
                 \<and> err (request_routine opts node_env rt req0 hs0) = e
        | Inr r \<Rightarrow> handler_calls (trace (request_routine opts node_env rt req0 hs0)) = [r])"
  using routine_chain_ok(2,3) [OF assms, of node_env hs0] by simp

theorem field_validation_order_witness:
  "field_parses (trace (request_routine test_opts None
        ((plain_route (\<lambda>r. Return VNull))
           \<lparr> query := Some (Schema ()), params := Some (Schema ()), body := Some (Schema ()) \<rparr>)
        [(''query'', test_value), (''params'', VStr ''invalid''), (''body'', test_value)] False))
       = [(Query, test_value), (Params, VStr ''invalid'')]
   \<and> handler_calls (trace (request_routine test_opts None
        ((plain_route (\<lambda>r. Return VNull))
           \<lparr> query := Some (Schema ()), params := Some (Schema ()), body := Some (Schema ()) \<rparr>)
        [(''query'', test_value), (''params'', VStr ''invalid''), (''body'', test_value)] False))
       = []
   \<and> next_args (trace (request_routine test_opts None
        ((plain_route (\<lambda>r. Return VNull))
           \<lparr> query := Some (Schema ()), params := Some (Schema ()), body := Some (Schema ()) \<rparr>)
        [(''query'', test_value), (''params'', VStr ''invalid''), (''body'', test_value)] False))
       = [VStr ''Invalid value'']"
proof -
  let ?rt = "(plain_route (\<lambda>r. Return VNull))
           \<lparr> query := Some (Schema ()), params := Some (Schema ()), body := Some (Schema ()) \<rparr>"
  let ?req = "[(''query'', test_value), (''params'', VStr ''invalid''), (''body'', test_value)]"
  have h1: "chain_ok (use_list (use ?rt)) ?req"
    by (simp add: plain_route_def)
  have h2: "spec_validate (parse test_opts) (field_schemas test_opts ?rt)
              (chain_context (use_list (use ?rt)) ?req)
            = ([(Query, test_value), (Params, VStr ''invalid'')], Inl (VStr ''Invalid value''))"
    by (simp add: test_defs field_schemas_def)
  from field_validation_order [OF h1 h2, of None False] show ?thesis by simp
qed

text \<open>
  C7, as stated, fails: the wrapper throws the validation error and does not assign the
  error slot; the slot is assigned only if the exception reaches the \<open>catch\<close> of the
  routine. A handler that catches the failure of \<open>res.send\<close> and sends a fallback has the
  fallback transmitted, unvalidated, by the restored host's \<open>send\<close>, and the
  error-continuation receives no error.
\<close>

theorem caught_validation_failure_counterexample:
  "parse test_opts () invalid_value = Inl (VStr ''Invalid value'')
   \<and> trace (request_routine test_opts None route_catches_send_failure [] False)
       = [EInstall, EHandler [], EParse Result invalid_value, ETransmit (VStr ''fallback''),
          ENext VUndefined]
   \<and> next_args (trace (request_routine test_opts None route_catches_send_failure [] False))
       \<noteq> [VStr ''Invalid value'']"
  by (simp add: run_defs test_defs more_defs)

text \<open>
  C7, amended: with the wrapper installed, a call \<open>res.send(v)\<close> whose payload fails the
  validation of the result with \<open>e\<close> throws \<open>e\<close>, transmits nothing, leaves \<open>res.send\<close>
  the host's function and does not assign the error slot. When the failure is not caught
  (the handler, after any assignments to \<open>req\<close> and calls of the error callable, sends
  \<open>v\<close> and lets \<open>e\<close> propagate, or returns \<open>v\<close> with the headers unsent and no error
  signalled), nothing is transmitted from the call of the handler on, \<open>res.send\<close> ends as
  the host's function, and the error-continuation receives \<open>e\<close>.
\<close>

theorem result_validation_failure_uncaught:
  assumes "before_handler opts node_env rt (init req0 hs0) = (Fallthrough, s)"
    and "res_send s = Wrapper HostSend t"
    and "parse opts t v = Inl e"
    and "(\<exists>k h. first_act (handler rt (req s)) = Send v k h \<and> h e = Throw e)
         \<or> (first_act (handler rt (req s)) = Return v \<and> \<not> headersSent s
             \<and> (prelude_signals (handler rt (req s)) \<noteq> []
                  \<longrightarrow> \<not> truthy (last (prelude_signals (handler rt (req s))))))"
  shows "transmits (trace (request_routine opts node_env rt req0 hs0)) = transmits (trace s)
    \<and> res_send (request_routine opts node_env rt req0 hs0) = HostSend
    \<and> next_args (trace (request_routine opts node_env rt req0 hs0)) = [e]
    \<and> (\<forall>x. res_send x = Wrapper HostSend t \<longrightarrow>
          (\<exists>x'. call_send opts v x = (Some e, x')
             \<and> transmits (trace x') = transmits (trace x)
             \<and> res_send x' = HostSend \<and> err x' = err x))"
proof -
  let ?p = "handler rt (req s)"
  let ?s1 = "prelude_state ?p (log (EHandler (req s)) s)"
  note b = before_handler_Fallthrough [OF assms(1)]
  have ex: "exec opts ?p (log (EHandler (req s)) s) = exec opts (first_act ?p) ?s1"
    by (rule exec_prelude)
  have w: "res_send ?s1 = Wrapper HostSend t" using assms(2) by simp
  have n: "next_args (trace ?s1) = []" using b(3) by simp
  have tr: "transmits (trace ?s1) = transmits (trace s)" by simp
  have 4: "\<forall>x. res_send x = Wrapper HostSend t \<longrightarrow>
          (\<exists>x'. call_send opts v x = (Some e, x')
             \<and> transmits (trace x') = transmits (trace x)
             \<and> res_send x' = HostSend \<and> err x' = err x)"
    using assms(3) by (simp add: call_send_simps)
  from assms(4) have "transmits (trace (request_routine opts node_env rt req0 hs0)) = transmits (trace s)
    \<and> res_send (request_routine opts node_env rt req0 hs0) = HostSend
    \<and> next_args (trace (request_routine opts node_env rt req0 hs0)) = [e]"
  proof
    assume "\<exists>k h. first_act ?p = Send v k h \<and> h e = Throw e"
    then obtain k h where "first_act ?p = Send v k h" "h e = Throw e" by blast
    with assms(3) w n tr show ?thesis
      by (simp add: routine_Fallthrough [OF assms(1)] invoke_handler_def ex call_send_simps
          finish_def)
  next
    assume a: "first_act ?p = Return v \<and> \<not> headersSent s
             \<and> (prelude_signals ?p \<noteq> [] \<longrightarrow> \<not> truthy (last (prelude_signals ?p)))"
    with b(6) have "\<not> truthy (err ?s1)" by (simp add: prelude_state_err)
    with a assms(3) w n tr show ?thesis
      by (simp add: routine_Fallthrough [OF assms(1)] invoke_handler_def ex call_send_simps
          finish_def)
  qed
  with 4 show ?thesis by blast
qed

theorem result_validation_failure_uncaught_witness:
  "transmits (trace (request_routine test_opts None
      ((plain_route handler_assigns_then_sends_invalid) \<lparr> result := Some (Schema ()) \<rparr>)
      [] False)) = []
   \<and> next_args (trace (request_routine test_opts None
      ((plain_route handler_assigns_then_sends_invalid) \<lparr> result := Some (Schema ()) \<rparr>)
      [] False)) = [VStr ''Invalid value'']
   \<and> transmits (trace (request_routine test_opts None
      ((plain_route handler_assigns_then_returns_invalid) \<lparr> result := Some (Schema ()) \<rparr>)
      [] False)) = []
   \<and> next_args (trace (request_routine test_opts None
      ((plain_route handler_assigns_then_returns_invalid) \<lparr> result := Some (Schema ()) \<rparr>)
      [] False)) = [VStr ''Invalid value'']"
proof -
  let ?rt1 = "(plain_route handler_assigns_then_sends_invalid) \<lparr> result := Some (Schema ()) \<rparr>"
  let ?rt2 = "(plain_route handler_assigns_then_returns_invalid) \<lparr> result := Some (Schema ()) \<rparr>"
  have w: "res_send installed_state = Wrapper HostSend ()" by (simp add: installed_state_def)
  have p: "parse test_opts () invalid_value = Inl (VStr ''Invalid value'')"
    by (simp add: test_defs invalid_value_def)
  have t0: "transmits (trace installed_state) = []" by (simp add: installed_state_def init_def)
  have h1: "(\<exists>k h. first_act (handler ?rt1 (req installed_state)) = Send invalid_value k h
                \<and> h (VStr ''Invalid value'') = Throw (VStr ''Invalid value''))
         \<or> (first_act (handler ?rt1 (req installed_state)) = Return invalid_value
             \<and> \<not> headersSent installed_state
             \<and> (prelude_signals (handler ?rt1 (req installed_state)) \<noteq> []
                  \<longrightarrow> \<not> truthy (last (prelude_signals (handler ?rt1 (req installed_state))))))"
    by (simp add: plain_route_def handler_assigns_then_sends_invalid_def)
  have h2: "(\<exists>k h. first_act (handler ?rt2 (req installed_state)) = Send invalid_value k h
                \<and> h (VStr ''Invalid value'') = Throw (VStr ''Invalid value''))
         \<or> (first_act (handler ?rt2 (req installed_state)) = Return invalid_value
             \<and> \<not> headersSent installed_state
             \<and> (prelude_signals (handler ?rt2 (req installed_state)) \<noteq> []
                  \<longrightarrow> \<not> truthy (last (prelude_signals (handler ?rt2 (req installed_state))))))"
    by (simp add: plain_route_def handler_assigns_then_returns_invalid_def installed_state_def
        init_def)
  from result_validation_failure_uncaught [OF before_handler_result_route w p h1]
    result_validation_failure_uncaught [OF before_handler_result_route w p h2] t0
  show ?thesis by simp
qed

text \<open>
  C8: when the handler returns \<open>v\<close> and no error was signalled, then, if the headers are
  not sent, \<open>v\<close> is sent through \<open>res.send\<close>: transmitted as it is when \<open>res.send\<close> is
  the host's, validated first when it is the wrapper (and then transmitted validated, or
  not transmitted and the validation error forwarded). If the headers are sent, in
  particular if the handler itself transmitted a payload, nothing more is transmitted.
\<close>

theorem implicit_send_of_return_value:
  assumes "before_handler opts node_env rt (init req0 hs0) = (Fallthrough, s)"
    and "exec opts (handler rt (req s)) (log (EHandler (req s)) s) = (Returned v, s')"
    and "list_all (\<lambda>w. \<not> truthy w) (slot_writes (trace s'))"
  shows "(\<not> headersSent s' \<longrightarrow>
           (case res_send s' of
              HostSend \<Rightarrow>
                trace (request_routine opts node_env rt req0 hs0)
                  = trace s' @ [ETransmit v, ENext (err s')]
            | Wrapper send t \<Rightarrow>
                (case parse opts t v of
                   Inr v' \<Rightarrow>
                     trace (request_routine opts node_env rt req0 hs0)
                       = trace s' @ [EParse Result v, ETransmit v', ENext (err s')]
                 | Inl e \<Rightarrow>
                     trace (request_routine opts node_env rt req0 hs0)
                       = trace s' @ [EParse Result v, ECaught e, ENext e])))
    \<and> (headersSent s' \<longrightarrow>
           trace (request_routine opts node_env rt req0 hs0) = trace s' @ [ENext (err s')])
    \<and> (transmits (trace s') \<noteq> transmits (trace s) \<longrightarrow>
           transmits (trace (request_routine opts node_env rt req0 hs0)) = transmits (trace s'))"
proof -
  note b = before_handler_Fallthrough [OF assms(1)]
  from b(2) have "err_inv (log (EHandler (req s)) s)" by (simp add: err_inv_def)
  with exec_err [OF assms(2)] have "err s' = last_write (trace s')" by (simp add: err_inv_def)
  with falsy_writes [OF assms(3)] have nf: "\<not> truthy (err s')" by simp
  have hd: "transmits (trace s') \<noteq> transmits (trace s) \<longrightarrow> headersSent s'"
    using exec_headers [OF assms(2)] by simp
  have 1: "headersSent s' \<longrightarrow>
      trace (request_routine opts node_env rt req0 hs0) = trace s' @ [ENext (err s')]"
    using assms(2) by (simp add: routine_Fallthrough [OF assms(1)] invoke_handler_def)
  have 2: "\<not> headersSent s' \<longrightarrow>
           (case res_send s' of
              HostSend \<Rightarrow>
                trace (request_routine opts node_env rt req0 hs0)
                  = trace s' @ [ETransmit v, ENext (err s')]
            | Wrapper send t \<Rightarrow>
                (case parse opts t v of
                   Inr v' \<Rightarrow>
                     trace (request_routine opts node_env rt req0 hs0)
                       = trace s' @ [EParse Result v, ETransmit v', ENext (err s')]
                 | Inl e \<Rightarrow>
                     trace (request_routine opts node_env rt req0 hs0)
                       = trace s' @ [EParse Result v, ECaught e, ENext e]))"
  proof -
    from b(1) have "slot_inv (log (EHandler (req s)) s)" by simp
    with exec_slot [OF assms(2)] have "slot_inv s'" by simp
    then consider "res_send s' = HostSend" "originalSend s' \<noteq> None \<longrightarrow> originalSend s' = Some HostSend"
      | t where "res_send s' = Wrapper HostSend t"
      by (auto simp: slot_inv_def split: option.splits)
    then show ?thesis
    proof cases
      case 1
      with assms(2) nf show ?thesis
        by (auto simp: routine_Fallthrough [OF assms(1)] invoke_handler_def call_send_simps
            finish_def)
    next
      case 2
      with assms(2) nf show ?thesis
        by (auto simp: routine_Fallthrough [OF assms(1)] invoke_handler_def call_send_simps
            finish_def split: sum.splits)
    qed
  qed
  from 1 2 hd show ?thesis by simp
qed

theorem implicit_send_of_return_value_witness:
  "trace (request_routine test_opts None
      ((plain_route (\<lambda>r. Return test_value))\<lparr> result := Some (Schema ()) \<rparr>) [] False)
     = [EInstall, EHandler [], EParse Result test_value, ETransmit (VStr ''parsed''),
        ENext VUndefined]"
proof -
  let ?rt = "(plain_route (\<lambda>r. Return test_value))\<lparr> result := Some (Schema ()) \<rparr>"
  let ?s = "log EInstall ((init [] False)\<lparr> originalSend := Some HostSend, res_send := Wrapper HostSend () \<rparr>)"
  have h1: "before_handler test_opts None ?rt (init [] False) = (Fallthrough, ?s)"
    by (simp add: run_defs test_defs)
  have h2: "exec test_opts (handler ?rt (req ?s)) (log (EHandler (req ?s)) ?s)
              = (Returned test_value, log (EHandler (req ?s)) ?s)"
    by (simp add: plain_route_def)
  have h3: "list_all (\<lambda>w. \<not> truthy w) (slot_writes (trace (log (EHandler (req ?s)) ?s)))"
    by (simp add: init_def)
  from implicit_send_of_return_value [OF h1 h2 h3] show ?thesis
    by (simp add: init_def test_defs)
qed

text \<open>
  C9, as stated, fails: with a result schema configured and result checking enabled, an
  invocation whose middleware throws never reaches the statement that installs the
  wrapper; \<open>res.send\<close> stays the host's function throughout.
\<close>

theorem interceptor_not_installed_counterexample:
  "objectToType (object test_opts) (result route_result_after_failing_step) = Some ()
   \<and> checkResult_of test_opts None
   \<and> before_handler test_opts None route_result_after_failing_step (init [] False)
       = (Exception (VStr ''Unauthorized''), log (EMw 0 []) (init [] False))
   \<and> res_send (log (EMw 0 []) (init [] False) :: unit st) = HostSend
   \<and> trace (request_routine test_opts None route_result_after_failing_step [] False)
       = [EMw 0 [], ECaught (VStr ''Unauthorized''), ENext (VStr ''Unauthorized'')]
   \<and> installs (trace (request_routine test_opts None route_result_after_failing_step [] False))
       = []"
  by (simp add: run_defs test_defs more_defs)

text \<open>
  C9, amended: in an invocation that reaches the handler, \<open>res.send\<close> is the wrapper of the
  host's function (and \<open>originalSend\<close> holds that function) exactly when a result schema is
  configured and result checking is enabled, where checking is \<open>checkResult\<close> when given
  and otherwise enabled exactly when \<open>NODE_ENV\<close> is not \<open>production\<close>; in an invocation
  that ends before the handler the wrapper is not installed. With \<open>checkResult\<close> false the
  result is never validated, and a returned payload is transmitted as it is, the
  error-continuation receiving no error.
\<close>

theorem interceptor_installation_at_handler:
  "(\<forall>s. before_handler opts node_env rt (init req0 hs0) = (Fallthrough, s) \<longrightarrow>
      (case objectToType (object opts) (result rt) of
         Some t \<Rightarrow>
           if (case checkResult opts of None \<Rightarrow> node_env \<noteq> Some ''production'' | Some b \<Rightarrow> b)
           then res_send s = Wrapper HostSend t \<and> originalSend s = Some HostSend
                \<and> installs (trace (request_routine opts node_env rt req0 hs0)) \<noteq> []
           else res_send s = HostSend \<and> originalSend s = None
                \<and> installs (trace (request_routine opts node_env rt req0 hs0)) = []
       | None \<Rightarrow>
           res_send s = HostSend \<and> originalSend s = None
           \<and> installs (trace (request_routine opts node_env rt req0 hs0)) = []))
   \<and> (\<forall>c s. before_handler opts node_env rt (init req0 hs0) = (c, s) \<and> c \<noteq> Fallthrough \<longrightarrow>
        res_send s = HostSend \<and> originalSend s = None
        \<and> installs (trace (request_routine opts node_env rt req0 hs0)) = [])
   \<and> (checkResult opts = Some False \<longrightarrow>
        result_parses (trace (request_routine opts node_env rt req0 hs0)) = []
        \<and> (\<forall>s v. before_handler opts node_env rt (init req0 hs0) = (Fallthrough, s)
                \<and> handler rt (req s) = Return v \<and> \<not> headersSent s
              \<longrightarrow> trace (request_routine opts node_env rt req0 hs0)
                    = trace s @ [EHandler (req s), ETransmit v, ENext (err s)]
                  \<and> \<not> truthy (err s)))"
proof -
  let ?R = "request_routine opts node_env rt req0 hs0"
  have 1: "\<forall>s. before_handler opts node_env rt (init req0 hs0) = (Fallthrough, s) \<longrightarrow>
      (case objectToType (object opts) (result rt) of
         Some t \<Rightarrow>
           if (case checkResult opts of None \<Rightarrow> node_env \<noteq> Some ''production'' | Some b \<Rightarrow> b)
           then res_send s = Wrapper HostSend t \<and> originalSend s = Some HostSend
                \<and> installs (trace ?R) \<noteq> []
           else res_send s = HostSend \<and> originalSend s = None \<and> installs (trace ?R) = []
       | None \<Rightarrow>
           res_send s = HostSend \<and> originalSend s = None \<and> installs (trace ?R) = [])"
  proof (intro allI impI)
    fix s assume b: "before_handler opts node_env rt (init req0 hs0) = (Fallthrough, s)"
    note f = before_handler_Fallthrough [OF b]
    have o: "originalSend s = (if checkResult_of opts node_env
                              \<and> objectToType (object opts) (result rt) \<noteq> None
                         then Some HostSend else None)"
      using before_handler_slots(2) [OF b] by simp
    have i: "installs (trace ?R) = installs (trace s)" by (rule routine_handled(4) [OF b])
    show "case objectToType (object opts) (result rt) of
         Some t \<Rightarrow>
           if (case checkResult opts of None \<Rightarrow> node_env \<noteq> Some ''production'' | Some b \<Rightarrow> b)
           then res_send s = Wrapper HostSend t \<and> originalSend s = Some HostSend
                \<and> installs (trace ?R) \<noteq> []
           else res_send s = HostSend \<and> originalSend s = None \<and> installs (trace ?R) = []
       | None \<Rightarrow>
           res_send s = HostSend \<and> originalSend s = None \<and> installs (trace ?R) = []"
      using f(7,8) o i
      by (cases "objectToType (object opts) (result rt)")
         (auto simp: checkResult_of_def split: option.splits)
  qed
  have 2: "\<forall>c s. before_handler opts node_env rt (init req0 hs0) = (c, s) \<and> c \<noteq> Fallthrough \<longrightarrow>
        res_send s = HostSend \<and> originalSend s = None \<and> installs (trace ?R) = []"
    using before_handler_slots(1) routine_stopped(1) by blast
  have 3: "checkResult opts = Some False \<longrightarrow> result_parses (trace ?R) = []"
    using no_interceptor_no_result_parse [of opts node_env rt req0 hs0]
    by (simp add: checkResult_of_def)
  have 4: "checkResult opts = Some False \<longrightarrow>
        (\<forall>s v. before_handler opts node_env rt (init req0 hs0) = (Fallthrough, s)
                \<and> handler rt (req s) = Return v \<and> \<not> headersSent s
              \<longrightarrow> trace ?R = trace s @ [EHandler (req s), ETransmit v, ENext (err s)]
                  \<and> \<not> truthy (err s))"
  proof (intro impI allI)
    fix s v
    assume cr: "checkResult opts = Some False"
      and a: "before_handler opts node_env rt (init req0 hs0) = (Fallthrough, s)
                \<and> handler rt (req s) = Return v \<and> \<not> headersSent s"
    then have b: "before_handler opts node_env rt (init req0 hs0) = (Fallthrough, s)" by simp
    note f = before_handler_Fallthrough [OF b]
    from f(8) cr have "res_send s = HostSend" by (simp add: checkResult_of_def)
    with a f(6) show "trace ?R = trace s @ [EHandler (req s), ETransmit v, ENext (err s)]
                  \<and> \<not> truthy (err s)"
      by (simp add: routine_Fallthrough [OF b] invoke_handler_def call_send_simps)
  qed
  from 1 2 3 4 show ?thesis by blast
qed

theorem interceptor_installation_at_handler_witness:
  "res_send installed_state = Wrapper HostSend ()
   \<and> installs (trace (request_routine test_opts None
        ((plain_route handler_reads_user) \<lparr> result := Some (Schema ()) \<rparr>) [] False)) \<noteq> []
   \<and> checkResult (test_opts \<lparr> checkResult := Some False \<rparr>) = Some False
   \<and> trace (request_routine (test_opts \<lparr> checkResult := Some False \<rparr>) None
        ((plain_route (\<lambda>r. Return invalid_value)) \<lparr> result := Some (Schema ()) \<rparr>) [] False)
       = [EHandler [], ETransmit invalid_value, ENext VUndefined]"
proof -
  let ?rt1 = "(plain_route handler_reads_user) \<lparr> result := Some (Schema ()) \<rparr>"
  let ?o = "test_opts \<lparr> checkResult := Some False \<rparr>"
  let ?rt = "(plain_route (\<lambda>r. Return invalid_value)) \<lparr> result := Some (Schema ()) \<rparr>"
  from interceptor_installation_at_handler [of test_opts None ?rt1 "[]" False]
  have "before_handler test_opts None ?rt1 (init [] False) = (Fallthrough, installed_state) \<longrightarrow>
      (case objectToType (object test_opts) (result ?rt1) of
         Some t \<Rightarrow>
           if (case checkResult test_opts of None \<Rightarrow> None \<noteq> Some ''production'' | Some b \<Rightarrow> b)
           then res_send installed_state = Wrapper HostSend t
                \<and> originalSend installed_state = Some HostSend
                \<and> installs (trace (request_routine test_opts None ?rt1 [] False)) \<noteq> []
           else res_send installed_state = HostSend \<and> originalSend installed_state = None
                \<and> installs (trace (request_routine test_opts None ?rt1 [] False)) = []
       | None \<Rightarrow>
           res_send installed_state = HostSend \<and> originalSend installed_state = None
           \<and> installs (trace (request_routine test_opts None ?rt1 [] False)) = [])"
    by blast
  with before_handler_result_route [of handler_reads_user]
  have a: "res_send installed_state = Wrapper HostSend ()
     \<and> installs (trace (request_routine test_opts None ?rt1 [] False)) \<noteq> []"
    by (simp add: test_opts_def plain_route_def)
  have h1: "checkResult ?o = Some False" by simp
  have h2: "before_handler ?o None ?rt (init [] False) = (Fallthrough, init [] False)
      \<and> handler ?rt (req (init [] False :: unit st)) = Return invalid_value
      \<and> \<not> headersSent (init [] False :: unit st)"
    by (simp add: run_defs test_defs)
  from interceptor_installation_at_handler [of ?o None ?rt "[]" False] h1
  have "\<forall>s v. before_handler ?o None ?rt (init [] False) = (Fallthrough, s)
                \<and> handler ?rt (req s) = Return v \<and> \<not> headersSent s
              \<longrightarrow> trace (request_routine ?o None ?rt [] False)
                    = trace s @ [EHandler (req s), ETransmit v, ENext (err s)]
                  \<and> \<not> truthy (err s)"
    by blast
  with h2 have "trace (request_routine ?o None ?rt [] False)
      = trace (init [] False :: unit st)
          @ [EHandler (req (init [] False :: unit st)), ETransmit invalid_value,
             ENext (err (init [] False :: unit st))]"
    by blast
  with a h1 show ?thesis by (simp add: init_def)
qed




end
